theory Spec2Isabelle
  imports Complex_Main
begin

section \<open>The command-line driver (PGURE-SVT-bin.cpp)\<close>

text \<open>
  The driver reads a parameter file into \<^verbatim>\<open>std::map<std::string, std::string>\<close>
  (here a map from strings to strings), extracts the numerical options, loads the
  TIFF stack, runs the per-window pipeline and writes the normalized result.
  The standard-library conversions \<^verbatim>\<open>std::stoi\<close>, \<^verbatim>\<open>std::stod\<close> and the stream
  extraction \<^verbatim>\<open>osTol >> tol\<close> are parameters of the model; \<open>None\<close> stands for
  the exception the conversion throws.
\<close>

subsection \<open>Machine numbers\<close>

text \<open>
  A C++ \<^verbatim>\<open>int\<close> is an \<open>int\<close> in the range of 32 bits. Where \<^verbatim>\<open>main\<close> computes with
  the integers of the parameter file (\<^verbatim>\<open>Bs * Bs\<close>, \<^verbatim>\<open>endimg - startimg + 1\<close>,
  \<^verbatim>\<open>startimg - 1\<close>, \<^verbatim>\<open>endimg - 1\<close>) and with the frame size (\<^verbatim>\<open>Nx * Ny * T\<close>), the result
  is reduced into that range by \<open>s32\<close>: this is the value the two's-complement targets
  produce (the C++ standard leaves signed overflow undefined). The index arithmetic of
  the window tasks is exact; it takes more than \<open>2\<^sup>3\<^sup>0\<close> frames to overflow it.
\<close>

definition s32 :: "int \<Rightarrow> int" where
  "s32 x = (x + 2 ^ 31) mod 2 ^ 32 - 2 ^ 31"

text \<open>
  A \<^verbatim>\<open>double\<close> that is known to be finite is a \<open>real\<close>; where a division can produce a
  value that is not finite, the result is a \<open>double\<close>. Arithmetic on finite values is exact
  (rounding is left out) except in the output normalization below, whose result is
  truncated to an integer; signed zeros and overflow to infinity are not modelled.
\<close>

datatype double = Finite real | PlusInfinity | MinusInfinity | NaN

text \<open>The quotient of two finite values: \<open>0/0\<close> is a NaN, \<open>a/0\<close> an infinity.\<close>

definition ieee_div :: "real \<Rightarrow> real \<Rightarrow> double" where
  "ieee_div a b =
     (if b \<noteq> 0 then Finite (a / b)
      else if a = 0 then NaN
      else if 0 < a then PlusInfinity else MinusInfinity)"

text \<open>A \<^verbatim>\<open>double\<close> divided by an \<^verbatim>\<open>int\<close> (converted to \<^verbatim>\<open>double\<close>, so a zero is \<open>+0\<close>).\<close>

definition ieee_quot :: "double \<Rightarrow> int \<Rightarrow> double" where
  "ieee_quot d n =
     (case d of
        Finite a \<Rightarrow> ieee_div a (of_int n)
      | PlusInfinity \<Rightarrow> (if n < 0 then MinusInfinity else PlusInfinity)
      | MinusInfinity \<Rightarrow> (if n < 0 then PlusInfinity else MinusInfinity)
      | NaN \<Rightarrow> NaN)"

fun ieee_add :: "double \<Rightarrow> double \<Rightarrow> double" where
  "ieee_add (Finite a) (Finite b) = Finite (a + b)"
| "ieee_add NaN y = NaN"
| "ieee_add x NaN = NaN"
| "ieee_add PlusInfinity MinusInfinity = NaN"
| "ieee_add MinusInfinity PlusInfinity = NaN"
| "ieee_add PlusInfinity y = PlusInfinity"
| "ieee_add x PlusInfinity = PlusInfinity"
| "ieee_add MinusInfinity y = MinusInfinity"
| "ieee_add x MinusInfinity = MinusInfinity"

text \<open>\<^verbatim>\<open>x > y\<close> on \<^verbatim>\<open>double\<close>: false whenever one side is a NaN.\<close>

fun ieee_greater :: "double \<Rightarrow> double \<Rightarrow> bool" where
  "ieee_greater (Finite a) (Finite b) \<longleftrightarrow> b < a"
| "ieee_greater NaN y \<longleftrightarrow> False"
| "ieee_greater x NaN \<longleftrightarrow> False"
| "ieee_greater PlusInfinity PlusInfinity \<longleftrightarrow> False"
| "ieee_greater PlusInfinity y \<longleftrightarrow> True"
| "ieee_greater x PlusInfinity \<longleftrightarrow> False"
| "ieee_greater MinusInfinity y \<longleftrightarrow> False"
| "ieee_greater x MinusInfinity \<longleftrightarrow> True"

text \<open>A finite factor times a \<^verbatim>\<open>double\<close>.\<close>

definition ieee_scale :: "real \<Rightarrow> double \<Rightarrow> double" where
  "ieee_scale c d =
     (case d of
        Finite a \<Rightarrow> Finite (c * a)
      | PlusInfinity \<Rightarrow> (if 0 < c then PlusInfinity else if c < 0 then MinusInfinity else NaN)
      | MinusInfinity \<Rightarrow> (if 0 < c then MinusInfinity else if c < 0 then PlusInfinity else NaN)
      | NaN \<Rightarrow> NaN)"

text \<open>The rounding \<open>fl\<close> of a real to a \<^verbatim>\<open>double\<close>, applied to a finite result.\<close>

definition ieee_round :: "(real \<Rightarrow> real) \<Rightarrow> double \<Rightarrow> double" where
  "ieee_round fl d = (case d of Finite a \<Rightarrow> Finite (fl a) | _ \<Rightarrow> d)"

type_synonym program_options = "string \<rightharpoonup> string"

subsection \<open>Tolerance parsing (lines 180-187)\<close>

text \<open>
  \<^verbatim>\<open>
  double tol = 1E-7;
  if (programOptions.count("tolerance") == 1)
  {
    std::istringstream osTol(programOptions.at("tolerance"));
    double tol;
    osTol >> tol;
  }
  \<close>
  The block declares a second variable \<^verbatim>\<open>tol\<close>; the extraction writes to that inner
  variable (\<open>tol_inner\<close> below), whose scope ends with the block. The value of the
  outer \<^verbatim>\<open>tol\<close> after the statement is what the rest of \<^verbatim>\<open>main\<close> sees.
\<close>

definition parse_tolerance :: "(string \<Rightarrow> real) \<Rightarrow> program_options \<Rightarrow> real" where
  "parse_tolerance read_double programOptions =
     (let tol = 1 / 10 ^ 7 in
      case programOptions ''tolerance'' of
        None \<Rightarrow> tol
      | Some s \<Rightarrow> (let tol_inner = read_double s in tol))"

text \<open>
  The call \<^verbatim>\<open>optimizer->Optimize(tol, lambda, u.max(), 1E3)\<close> of line 364 receives
  the outer \<^verbatim>\<open>tol\<close> as its first argument.
\<close>

subsection \<open>Parameter extraction and start-up checks (lines 90-285)\<close>

datatype main_error =
    RequiredParametersMissing
  | LambdaMissing
  | FileNotFound
  | FramesNotSquare
  | BadBitDepth
  | TooFewFrames
  | ConversionFailed
  | EmptyObject

definition bind_err :: "'e + 'a \<Rightarrow> ('a \<Rightarrow> 'e + 'b) \<Rightarrow> 'e + 'b" where
  "bind_err m f = (case m of Inl e \<Rightarrow> Inl e | Inr a \<Rightarrow> f a)"

text \<open>\<^verbatim>\<open>bool strToBool(std::string const &s) { return s != "0"; }\<close>\<close>

definition strToBool :: "string \<Rightarrow> bool" where
  "strToBool s = (s \<noteq> ''0'')"

text \<open>
  The pattern \<^verbatim>\<open>(programOptions.count(key) == 1) ? std::stoi(programOptions.at(key)) : d\<close>;
  an exception of the conversion is not caught anywhere in \<^verbatim>\<open>main\<close>.
\<close>

definition option_or :: "(string \<Rightarrow> 'a option) \<Rightarrow> program_options \<Rightarrow> string \<Rightarrow> 'a \<Rightarrow> main_error + 'a" where
  "option_or conv programOptions key d =
     (case programOptions key of
        None \<Rightarrow> Inr d
      | Some s \<Rightarrow> (case conv s of None \<Rightarrow> Inl ConversionFailed | Some v \<Rightarrow> Inr v))"

definition required :: "(string \<Rightarrow> 'a option) \<Rightarrow> program_options \<Rightarrow> string \<Rightarrow> main_error + 'a" where
  "required conv programOptions key =
     (case programOptions key of
        None \<Rightarrow> Inl ConversionFailed
      | Some s \<Rightarrow> (case conv s of None \<Rightarrow> Inl ConversionFailed | Some v \<Rightarrow> Inr v))"

text \<open>
  What the TIFF library reports about the input file: whether it exists, the frame
  width, height and bit depth, and the number of directories (pages) it holds.
\<close>

record tiff_file =
  file_exists :: bool
  tiffWidth :: int
  tiffHeight :: int
  tiffDepth :: nat
  directories :: nat

text \<open>
  The values \<^verbatim>\<open>main\<close> holds when the window loop starts (field \<open>cfg_x\<close> for the
  variable \<^verbatim>\<open>x\<close>). \<open>cfg_lambda\<close> is the variable
  \<^verbatim>\<open>double lambda;\<close> of line 153: it is assigned only when the optimization is
  switched off; otherwise it is never initialized, and \<open>indeterminate\<close> stands for
  whatever it holds. \<^verbatim>\<open>std::stod\<close> also reads infinities and NaNs, so the values it
  delivers are of type \<open>double\<close>.
\<close>

record config =
  cfg_num_images :: int
  cfg_Bs :: int
  cfg_T :: int
  cfg_alpha :: double
  cfg_mu :: double
  cfg_sigma :: double
  cfg_pgureOpt :: bool
  cfg_lambda :: double
  cfg_MotionP :: int
  cfg_MedianSize :: int
  cfg_tol :: real
  cfg_Bo :: int
  cfg_NoiseMethod :: int
  cfg_hotpixelthreshold :: real
  cfg_Nx :: int
  cfg_Ny :: int

text \<open>
  Lines 132-135: \<^verbatim>\<open>T = (Bs * Bs < T) ? (Bs * Bs) - 1 : T;\<close> with the product and the
  difference in \<^verbatim>\<open>int\<close>.
\<close>

definition adjust_T :: "int \<Rightarrow> int \<Rightarrow> int" where
  "adjust_T Bs T = (if s32 (Bs * Bs) < T then s32 (s32 (Bs * Bs) - 1) else T)"

text \<open>
  Lines 237-278: the pages with \<^verbatim>\<open>startimg - 1 <= dircount <= endimg - 1\<close> are imported.
\<close>

definition imported_slices :: "tiff_file \<Rightarrow> int \<Rightarrow> int \<Rightarrow> int" where
  "imported_slices f startimg endimg =
     int (length (filter (\<lambda>dircount. s32 (startimg - 1) \<le> int dircount \<and>
                                      int dircount \<le> s32 (endimg - 1))
                         [0 ..< max 1 (directories f)]))"

text \<open>
  Lines 103-285. \<open>num_images\<close> is \<^verbatim>\<open>endimg - startimg + 1\<close> (line 123), in \<^verbatim>\<open>int\<close>.
\<close>

definition startup ::
  "(string \<Rightarrow> int option) \<Rightarrow> (string \<Rightarrow> double option) \<Rightarrow> (string \<Rightarrow> real) \<Rightarrow> double \<Rightarrow>
   program_options \<Rightarrow> tiff_file \<Rightarrow> main_error + config" where
  "startup stoi stod read_double indeterminate programOptions f =
     (if programOptions ''filename'' = None \<or> programOptions ''start_image'' = None
         \<or> programOptions ''end_image'' = None
      then Inl RequiredParametersMissing
      else
      bind_err (required stoi programOptions ''start_image'') (\<lambda>startimg.
      bind_err (required stoi programOptions ''end_image'') (\<lambda>endimg.
      bind_err (option_or stoi programOptions ''patch_size'' 4) (\<lambda>Bs.
      bind_err (option_or stoi programOptions ''trajectory_length'' 15) (\<lambda>T.
      let num_images = s32 (s32 (endimg - startimg) + 1) in
      bind_err (option_or stod programOptions ''alpha'' (Finite (- 1))) (\<lambda>alpha.
      bind_err (option_or stod programOptions ''mu'' (Finite (- 1))) (\<lambda>mu.
      bind_err (option_or stod programOptions ''sigma'' (Finite (- 1))) (\<lambda>sigma.
      let pgureOpt = (case programOptions ''pgure'' of None \<Rightarrow> True | Some s \<Rightarrow> strToBool s) in
      bind_err (if \<not> pgureOpt
                then (if programOptions ''lambda'' = None then Inl LambdaMissing
                      else required stod programOptions ''lambda'')
                else Inr indeterminate) (\<lambda>lambda.
      bind_err (option_or stoi programOptions ''motion_neighbourhood'' 7) (\<lambda>MotionP.
      bind_err (option_or stoi programOptions ''median_filter'' 5) (\<lambda>MedianSize.
      let tol = parse_tolerance read_double programOptions in
      bind_err (option_or stoi programOptions ''patch_overlap'' 1) (\<lambda>Bo.
      bind_err (option_or stoi programOptions ''noise_method'' 4) (\<lambda>NoiseMethod.
      bind_err (option_or stoi programOptions ''hot_pixel'' 10) (\<lambda>hotpixel.
      if \<not> file_exists f then Inl FileNotFound
      else if tiffWidth f \<noteq> tiffHeight f then Inl FramesNotSquare
      else if tiffDepth f \<noteq> 8 \<and> tiffDepth f \<noteq> 16 then Inl BadBitDepth
      else if num_images > imported_slices f startimg endimg then Inl TooFewFrames
      else Inr \<lparr> cfg_num_images = num_images, cfg_Bs = Bs, cfg_T = adjust_T Bs T,
                 cfg_alpha = alpha, cfg_mu = mu, cfg_sigma = sigma, cfg_pgureOpt = pgureOpt, cfg_lambda = lambda,
                 cfg_MotionP = MotionP, cfg_MedianSize = MedianSize, cfg_tol = tol, cfg_Bo = Bo,
                 cfg_NoiseMethod = NoiseMethod, cfg_hotpixelthreshold = of_int hotpixel,
                 cfg_Nx = tiffHeight f, cfg_Ny = tiffWidth f \<rparr>))))))))))))))"

text \<open>
  A decimal reader for the concrete examples below: an optional minus sign followed by
  digits, as \<^verbatim>\<open>std::stoi\<close> reads them; anything else counts as a failed conversion.
\<close>

definition digit_of :: "char \<Rightarrow> nat option" where
  "digit_of c = (let n = of_char c :: nat in if 48 \<le> n \<and> n \<le> 57 then Some (n - 48) else None)"

fun digits_value :: "nat \<Rightarrow> string \<Rightarrow> nat option" where
  "digits_value acc [] = Some acc"
| "digits_value acc (c # cs) =
     (case digit_of c of None \<Rightarrow> None | Some d \<Rightarrow> digits_value (10 * acc + d) cs)"

definition stoi_dec :: "string \<Rightarrow> int option" where
  "stoi_dec s =
     (case s of
        [] \<Rightarrow> None
      | c # cs \<Rightarrow>
          if c = CHR ''-'' then (if cs = [] then None else map_option (\<lambda>n. - int n) (digits_value 0 cs))
          else map_option int (digits_value 0 s))"

definition stod_dec :: "string \<Rightarrow> double option" where
  "stod_dec s = map_option (\<lambda>n. Finite (of_int n)) (stoi_dec s)"

subsection \<open>The per-window task (lines 312-391)\<close>

text \<open>
  An image sequence is a list of frames, a frame the list of its pixel values.
  \<^verbatim>\<open>slices(first, last)\<close> raises an error unless \<open>first \<le> last < n_slices\<close>.
\<close>

type_synonym frames = "real list list"

definition slices :: "frames \<Rightarrow> int \<Rightarrow> int \<Rightarrow> main_error + frames" where
  "slices xs first_slice last_slice =
     (if 0 \<le> first_slice \<and> first_slice \<le> last_slice \<and> last_slice < int (length xs)
      then Inr (take (nat (last_slice - first_slice + 1)) (drop (nat first_slice) xs))
      else Inl EmptyObject)"

definition slice :: "frames \<Rightarrow> int \<Rightarrow> main_error + real list" where
  "slice xs k = (if 0 \<le> k \<and> k < int (length xs) then Inr (xs ! nat k) else Inl EmptyObject)"

definition arma_max :: "real list \<Rightarrow> real" where
  "arma_max xs = foldl max (hd xs) (tl xs)"

definition arma_min :: "real list \<Rightarrow> real" where
  "arma_min xs = foldl min (hd xs) (tl xs)"

text \<open>
  \<^verbatim>\<open>max()\<close> and \<^verbatim>\<open>accu\<close> of a cube that may hold values that are not finite. The maximum
  is found by a scan that starts from the most negative value and keeps an element when
  it is greater; a NaN is never greater, so the scan passes over it. A sum with a NaN in
  it, or with infinities of both signs, is a NaN.
\<close>

definition arma_max_double :: "double list \<Rightarrow> double" where
  "arma_max_double xs = foldl (\<lambda>m x. if ieee_greater x m then x else m) MinusInfinity xs"

definition accu :: "double list list \<Rightarrow> double" where
  "accu u = foldl ieee_add (Finite 0) (concat u)"

text \<open>C++ integer division truncates towards zero.\<close>

definition cdiv :: "int \<Rightarrow> int \<Rightarrow> int" where
  "cdiv a b = sgn a * sgn b * (\<bar>a\<bar> div \<bar>b\<bar>)"

text \<open>
  The optimizer object of \<^verbatim>\<open>pgure.hpp\<close> is created afresh for every window and bound
  to that window by \<^verbatim>\<open>Initialize\<close>; its two entry points are therefore functions of the
  window index and of their arguments.
\<close>

record pgure_api =
  pgure_Optimize :: "int \<Rightarrow> real \<Rightarrow> double \<Rightarrow> double \<Rightarrow> real \<Rightarrow> double"
  pgure_Reconstruct :: "int \<Rightarrow> double \<Rightarrow> frames"

text \<open>
  What one call of the closure \<^verbatim>\<open>func\<close> does: the arguments of its \<^verbatim>\<open>Optimize\<close> call
  (if any), the threshold handed to \<^verbatim>\<open>Reconstruct\<close>, and the frame it stores into
  \<^verbatim>\<open>cleansequence.slice(timeiter)\<close>.
\<close>

record window_result =
  optimize_args :: "(real \<times> double \<times> double \<times> real) option"
  reconstruct_arg :: double
  clean_frame :: "real list"

text \<open>
  \<^verbatim>\<open>auto &&func = [&, lambda_ = lambda](int timeiter) { auto lambda = lambda_; ... }\<close>:
  the closure captures a copy of \<^verbatim>\<open>lambda\<close> taken when the closure is created, and
  every call starts from that copy (\<open>lambda_captured\<close> for \<^verbatim>\<open>lambda_\<close>, \<open>lambda0\<close>,
  \<open>lambda1\<close>, \<open>lambda2\<close> for the successive values of the local \<^verbatim>\<open>lambda\<close>).

  \<^verbatim>\<open>u /= inputmax\<close> divides without a check: when the maximum of the window is zero the
  normalized window holds NaNs and infinities, and the task carries on with it. The
  window itself goes to the estimators and to \<^verbatim>\<open>Initialize\<close>; \<^verbatim>\<open>main\<close> uses its sum
  (for the starting value of the first window, \<^verbatim>\<open>arma::accu(u) / (Nx * Ny * T)\<close> with the
  product in \<^verbatim>\<open>int\<close>) and its maximum. The cube that \<^verbatim>\<open>Reconstruct\<close> returns has finite
  samples (the SVT engine replaces the others by zero, part_001 line 199).
\<close>

definition func :: "config \<Rightarrow> pgure_api \<Rightarrow> frames \<Rightarrow> int \<Rightarrow> main_error + window_result" where
  "func cfg api noisysequence timeiter =
     (let lambda_captured = cfg_lambda cfg;
          lambda0 = lambda_captured;
          T = cfg_T cfg;
          framewindow = cdiv T 2
      in
      bind_err
        (if timeiter < framewindow then slices noisysequence 0 (2 * framewindow)
         else if timeiter \<ge> cfg_num_images cfg - framewindow
         then slices noisysequence (cfg_num_images cfg - 2 * framewindow - 1) (cfg_num_images cfg - 1)
         else slices noisysequence (timeiter - framewindow) (timeiter + framewindow))
        (\<lambda>u0.
      if concat u0 = [] then Inl EmptyObject else
      let inputmax = arma_max (concat u0);
          u = map (map (\<lambda>x. ieee_div x inputmax)) u0
      in
      bind_err
        (if cfg_pgureOpt cfg
         then
           (let lambda1 = (if timeiter = 0
                           then ieee_quot (accu u) (s32 (s32 (cfg_Nx cfg * cfg_Ny cfg) * T))
                           else lambda0);
                lambda2 = pgure_Optimize api timeiter (cfg_tol cfg) lambda1
                            (arma_max_double (concat u)) 1000
            in Inr (Some (cfg_tol cfg, lambda1, arma_max_double (concat u), 1000), lambda2,
                    pgure_Reconstruct api timeiter lambda2))
         else Inr (None, lambda0, pgure_Reconstruct api timeiter lambda0))
        (\<lambda>(args, lam, v0).
      let v = map (map (\<lambda>x. x * inputmax)) v0 in
      bind_err
        (if timeiter < framewindow then slice v timeiter
         else if timeiter \<ge> cfg_num_images cfg - framewindow
         then slice v (timeiter - (cfg_num_images cfg - T))
         else slice v framewindow)
        (\<lambda>fr. Inr \<lparr> optimize_args = args, reconstruct_arg = lam, clean_frame = fr \<rparr>))))"

text \<open>
  Modelled from the spec: \<^verbatim>\<open>parallel\<close> of \<^verbatim>\<open>parallel.hpp\<close>, which is not among the
  sources. The spec describes it as a worker pool that runs the task once for every
  output frame index, each task independent of the others and writing only its own
  output slice; the model collects the results in index order.
\<close>

fun collect :: "(main_error + 'a) list \<Rightarrow> main_error + 'a list" where
  "collect [] = Inr []"
| "collect (r # rs) = bind_err r (\<lambda>x. bind_err (collect rs) (\<lambda>xs. Inr (x # xs)))"

definition parallel :: "(int \<Rightarrow> main_error + 'a) \<Rightarrow> int \<Rightarrow> main_error + 'a list" where
  "parallel f n = collect (map (\<lambda>i. f (int i)) [0 ..< nat n])" 

subsection \<open>Output normalization (lines 398-403)\<close>

text \<open>
  \<^verbatim>\<open>
  cleansequence = (cleansequence - cleansequence.min()) /
                  (cleansequence.max() - cleansequence.min());
  outTiff = arma::conv_to<arma::Cube<unsigned short>>::from(65535 * cleansequence);
  \<close>
  Every sample \<open>x\<close> becomes \<open>(x - min) / (max - min)\<close>, the divisor being the scalar
  \<open>max - min\<close>; nothing checks the divisor, and \<open>0/0\<close> is a NaN. Each of the three
  operations, and the product by 65535, rounds its result to a \<^verbatim>\<open>double\<close>: \<open>fl\<close> is that
  rounding.
\<close>

definition normalized :: "(real \<Rightarrow> real) \<Rightarrow> real list \<Rightarrow> double list" where
  "normalized fl cleansequence =
     (let lo = arma_min cleansequence; hi = arma_max cleansequence
      in map (\<lambda>x. ieee_round fl (ieee_div (fl (x - lo)) (fl (hi - lo)))) cleansequence)"

text \<open>
  What the statements below use of the rounding to the nearest \<^verbatim>\<open>double\<close>: it is
  monotone, and 0, 1 and 65535 are \<^verbatim>\<open>double\<close>s.
\<close>

definition rounding :: "(real \<Rightarrow> real) \<Rightarrow> bool" where
  "rounding fl \<longleftrightarrow> mono fl \<and> fl 0 = 0 \<and> fl 1 = 1 \<and> fl 65535 = 65535"

text \<open>
  The conversion to \<^verbatim>\<open>unsigned short\<close> truncates a finite value towards zero. For a NaN
  or an infinity the C++ conversion is undefined; the conversion instruction of the usual
  targets delivers a bit pattern whose low 16 bits are zero, and the program writes 0.
\<close>

definition to_ushort :: "double \<Rightarrow> nat" where
  "to_ushort d =
     (case d of
        Finite x \<Rightarrow> nat ((if 0 \<le> x then \<lfloor>x\<rfloor> else \<lceil>x\<rceil>) mod 65536)
      | _ \<Rightarrow> 0)"

text \<open>
  The output samples. \<^verbatim>\<open>min()\<close> and \<^verbatim>\<open>max()\<close> raise an error on a cube without
  elements.
\<close>

definition normalize_output :: "(real \<Rightarrow> real) \<Rightarrow> real list \<Rightarrow> main_error + nat list" where
  "normalize_output fl cleansequence =
     (if cleansequence = [] then Inl EmptyObject
      else Inr (map (\<lambda>q. to_ushort (ieee_round fl (ieee_scale 65535 q)))
                    (normalized fl cleansequence)))"

text \<open>The whole run: start-up checks, the window tasks, the normalized 16-bit output.\<close>

definition main ::
  "(real \<Rightarrow> real) \<Rightarrow> (string \<Rightarrow> int option) \<Rightarrow> (string \<Rightarrow> double option) \<Rightarrow> (string \<Rightarrow> real) \<Rightarrow>
   double \<Rightarrow> program_options \<Rightarrow> tiff_file \<Rightarrow> pgure_api \<Rightarrow> frames \<Rightarrow> main_error + nat list" where
  "main fl stoi stod read_double indeterminate programOptions f api noisysequence =
     bind_err (startup stoi stod read_double indeterminate programOptions f) (\<lambda>cfg.
     bind_err (parallel (func cfg api noisysequence) (cfg_num_images cfg)) (\<lambda>results.
     normalize_output fl (concat (map clean_frame results))))"

section \<open>The SVT engine (class \<^verbatim>\<open>SVT\<close>)\<close>

text \<open>
  Vectors, matrices and cubes are functions from indices to reals (\<^verbatim>\<open>double\<close> is
  modelled by \<open>real\<close>); their dimensions are carried by the object that owns them.
  A cube is indexed (row, column, slice). Element access outside the dimensions, which
  Armadillo answers with an exception, is a value of \<open>svt_error\<close>.
\<close>

type_synonym vec = "nat \<Rightarrow> real"
type_synonym mat = "nat \<Rightarrow> nat \<Rightarrow> real"
type_synonym cube = "nat \<Rightarrow> nat \<Rightarrow> nat \<Rightarrow> real"

datatype svt_error = IntegerDivisionByZero | IndexOutOfBounds | IncompatibleDimensions

text \<open>Arithmetic in \<^verbatim>\<open>uint32_t\<close> wraps modulo \<open>2^32\<close>.\<close>

definition u32 :: "int \<Rightarrow> nat" where
  "u32 x = nat (x mod 2 ^ 32)"

text \<open>
  The members of the class (field \<open>svt_x\<close> for the member \<^verbatim>\<open>x\<close>). \<open>svt_patches\<close> is
  the cube of patch locations handed to the constructor: \<open>svt_patches s idx k\<close> is the
  pair \<^verbatim>\<open>(patches(0, idx, k), patches(1, idx, k))\<close>, and \<open>None\<close> where the cube has
  no such entry.
\<close>

record svt =
  svt_patches :: "nat \<Rightarrow> nat \<Rightarrow> (int \<times> int) option"
  svt_Nx :: nat
  svt_Ny :: nat
  svt_Nt :: nat
  svt_blockSize :: nat
  svt_blockOverlap :: nat
  svt_expWeighting :: bool
  svt_nxMbs :: nat
  svt_nyMbs :: nat
  svt_nxMbsDbo :: nat
  svt_nyMbsDbo :: nat
  svt_vecSize :: nat
  svt_actualPatches :: "nat list"
  svt_newVecSize :: nat
  svt_U :: "mat list"
  svt_S :: "vec list"
  svt_V :: "mat list"

text \<open>
  The constructor (lines 59-82). The two divisions by \<^verbatim>\<open>blockOverlap\<close> are integer
  divisions, which stop the program when the divisor is zero.
\<close>

definition SVT ::
  "(nat \<Rightarrow> nat \<Rightarrow> (int \<times> int) option) \<Rightarrow> nat \<Rightarrow> nat \<Rightarrow> nat \<Rightarrow> nat \<Rightarrow> nat \<Rightarrow> bool \<Rightarrow> svt_error + svt" where
  "SVT patches Nx Ny Nt blockSize blockOverlap expWeighting =
     (let nxMbs = u32 (int Nx - int blockSize);
          nyMbs = u32 (int Ny - int blockSize)
      in if blockOverlap = 0 then Inl IntegerDivisionByZero
         else
           let nxMbsDbo = nxMbs div blockOverlap;
               nyMbsDbo = nyMbs div blockOverlap
           in Inr \<lparr> svt_patches = patches, svt_Nx = Nx, svt_Ny = Ny, svt_Nt = Nt,
                     svt_blockSize = blockSize, svt_blockOverlap = blockOverlap,
                     svt_expWeighting = expWeighting,
                     svt_nxMbs = nxMbs, svt_nyMbs = nyMbs,
                     svt_nxMbsDbo = nxMbsDbo, svt_nyMbsDbo = nyMbsDbo,
                     svt_vecSize = u32 (int ((1 + nxMbsDbo) * (1 + nyMbsDbo))),
                     svt_actualPatches = [], svt_newVecSize = 0,
                     svt_U = [], svt_S = [], svt_V = [] \<rparr>)"

subsection \<open>Decompose (lines 93-153)\<close>

text \<open>
  \<^verbatim>\<open>for (size_t i = 0; i < bound; i += blockOverlap)\<close>: the values the loop variable takes.
  The constructor has already stopped the program when \<^verbatim>\<open>blockOverlap\<close> is zero, so the
  loop only runs with a positive step.
\<close>

function strided :: "nat \<Rightarrow> nat \<Rightarrow> nat \<Rightarrow> nat list" where
  "strided i bound step = (if i < bound \<and> 0 < step then i # strided (i + step) bound step else [])"
  by pat_completeness auto
termination
  by (relation "measure (\<lambda>(i, bound, step). bound - i)") auto

definition firstPatches :: "svt \<Rightarrow> nat list" where
  "firstPatches s =
     concat (map (\<lambda>i. map (\<lambda>j. i * svt_nyMbs s + j)
                          (strided 0 (u32 (1 + int (svt_nxMbs s))) (svt_blockOverlap s)))
                 (strided 0 (u32 (1 + int (svt_nyMbs s))) (svt_blockOverlap s)))"

definition patchesBottomEdge :: "svt \<Rightarrow> nat list" where
  "patchesBottomEdge s =
     map (\<lambda>i. (svt_nyMbs s + 1) * i + svt_nxMbs s)
         (strided 0 (u32 (1 + int (svt_nyMbs s))) (svt_blockOverlap s))"

definition patchesRightEdge :: "svt \<Rightarrow> nat list" where
  "patchesRightEdge s =
     map (\<lambda>i. (svt_nyMbs s + 1) * svt_nxMbs s + i)
         (strided 0 (u32 (1 + int (svt_nxMbs s))) (svt_blockOverlap s))"

text \<open>
  The three index vectors are copied into \<^verbatim>\<open>joinPatches\<close> (the right edge into a span
  of length \<^verbatim>\<open>1 + nyMbsDbo\<close>, the bottom edge into one of length \<^verbatim>\<open>1 + nxMbsDbo\<close>, which
  fails when the lengths differ); \<^verbatim>\<open>find_unique\<close> and \<^verbatim>\<open>sort\<close> leave the distinct
  indices in ascending order.
\<close>

definition joinPatches :: "svt \<Rightarrow> svt_error + nat list" where
  "joinPatches s =
     (if svt_nxMbsDbo s \<noteq> svt_nyMbsDbo s then Inl IncompatibleDimensions
      else Inr (firstPatches s @ patchesRightEdge s @ patchesBottomEdge s))"

text \<open>
  \<^verbatim>\<open>span(a, a + blockSize - 1)\<close> on a dimension of \<open>n\<close> elements is valid when
  \<open>0 \<le> a \<le> a + blockSize - 1 < n\<close>.
\<close>

definition span_ok :: "nat \<Rightarrow> nat \<Rightarrow> int \<Rightarrow> bool" where
  "span_ok n blockSize a \<longleftrightarrow> 0 \<le> a \<and> 1 \<le> blockSize \<and> a + int blockSize - 1 < int n"

text \<open>
  \<^verbatim>\<open>block.col(k) = vectorise(u(span(newY, ...), span(newX, ...), span(k)))\<close>: element
  \<open>p\<close> of the column is the pixel in row \<open>newY + p mod blockSize\<close> and column
  \<open>newX + p div blockSize\<close> (column-major order).
\<close>

definition vectorise_patch :: "cube \<Rightarrow> nat \<Rightarrow> int \<Rightarrow> int \<Rightarrow> nat \<Rightarrow> vec" where
  "vectorise_patch u blockSize newY newX k =
     (\<lambda>p. u (nat newY + p mod blockSize) (nat newX + p div blockSize) k)"

definition set_col :: "mat \<Rightarrow> nat \<Rightarrow> vec \<Rightarrow> mat" where
  "set_col block k col = (\<lambda>p k'. if k' = k then col p else block p k')"

fun extract_block :: "svt \<Rightarrow> cube \<Rightarrow> nat \<Rightarrow> nat list \<Rightarrow> mat \<Rightarrow> svt_error + mat" where
  "extract_block s u idx [] block = Inr block"
| "extract_block s u idx (k # ks) block =
     (case svt_patches s idx k of
        None \<Rightarrow> Inl IndexOutOfBounds
      | Some (newY, newX) \<Rightarrow>
          if span_ok (svt_Nx s) (svt_blockSize s) newY \<and> span_ok (svt_Ny s) (svt_blockSize s) newX
          then extract_block s u idx ks
                 (set_col block k (vectorise_patch u (svt_blockSize s) newY newX k))
          else Inl IndexOutOfBounds)"

text \<open>
  \<^verbatim>\<open>arma::svd_econ\<close> belongs to the linear-algebra library; it is the parameter \<open>svd\<close>,
  which returns the triple (U, S, V) of a block.
\<close>

fun decompose_loop ::
  "(mat \<Rightarrow> mat \<times> vec \<times> mat) \<Rightarrow> svt \<Rightarrow> cube \<Rightarrow> nat list \<Rightarrow> svt_error + (mat \<times> vec \<times> mat) list" where
  "decompose_loop svd s u [] = Inr []"
| "decompose_loop svd s u (idx # rest) =
     bind_err (extract_block s u idx [0 ..< svt_Nt s] (\<lambda>p k. 0)) (\<lambda>block.
     bind_err (decompose_loop svd s u rest) (\<lambda>usv. Inr (svd block # usv)))"

definition Decompose :: "(mat \<Rightarrow> mat \<times> vec \<times> mat) \<Rightarrow> svt \<Rightarrow> cube \<Rightarrow> svt_error + svt" where
  "Decompose svd s u =
     bind_err (joinPatches s) (\<lambda>joined.
     let actualPatches = sort (remdups joined) in
     bind_err (decompose_loop svd s u actualPatches) (\<lambda>usv.
     Inr (s\<lparr> svt_actualPatches := actualPatches,
              svt_newVecSize := length actualPatches,
              svt_U := map fst usv,
              svt_S := map (\<lambda>t. fst (snd t)) usv,
              svt_V := map (\<lambda>t. snd (snd t)) usv \<rparr>)))"

subsection \<open>Reconstruct (lines 156-202)\<close>

text \<open>
  Modelled from the spec: \<^verbatim>\<open>pguresvt::SoftThreshold\<close> of \<^verbatim>\<open>utils.hpp\<close>, which is not
  among the sources. The spec gives it as
  \<open>Sthresh[i] = sign(S[i]) \<cdot> max(|S[i]| - lambda, 0)\<close>, with a scalar threshold or with a
  vector of thresholds used element by element.
\<close>

definition SoftThreshold :: "vec \<Rightarrow> real \<Rightarrow> vec" where
  "SoftThreshold v thresh = (\<lambda>i. sgn (v i) * max (\<bar>v i\<bar> - thresh) 0)"

definition SoftThreshold_vec :: "vec \<Rightarrow> vec \<Rightarrow> vec" where
  "SoftThreshold_vec v thresh = (\<lambda>i. sgn (v i) * max (\<bar>v i\<bar> - thresh i) 0)"

text \<open>\<^verbatim>\<open>Sblock.max()\<close> of a vector of \<open>n\<close> elements.\<close>

definition vec_max :: "nat \<Rightarrow> vec \<Rightarrow> real" where
  "vec_max n v = arma_max (map v [0 ..< n])"

text \<open>
  \<^verbatim>\<open>wvec = arma::abs(Sblock.max() * arma::exp(-0.5 * lambda * arma::square(Sblock)))\<close>
\<close>

definition wvec :: "nat \<Rightarrow> vec \<Rightarrow> real \<Rightarrow> vec" where
  "wvec n Sblock lambda = (\<lambda>i. \<bar>vec_max n Sblock * exp (- 0.5 * lambda * (Sblock i)\<^sup>2)\<bar>)"

text \<open>The thresholded singular values of patch \<open>it\<close> (lines 170-178).\<close>

definition Sthresh :: "svt \<Rightarrow> real \<Rightarrow> nat \<Rightarrow> vec" where
  "Sthresh s lambda it =
     (let Sblock = svt_S s ! it in
      if svt_expWeighting s
      then SoftThreshold_vec Sblock (wvec (svt_Nt s) Sblock lambda)
      else SoftThreshold Sblock lambda)"

text \<open>\<^verbatim>\<open>block = Ublock * diagmat(Sthresh) * Vblock.t()\<close>, with \<open>n\<close> singular values.\<close>

definition usv_product :: "nat \<Rightarrow> mat \<Rightarrow> vec \<Rightarrow> mat \<Rightarrow> mat" where
  "usv_product n Ublock Sv Vblock = (\<lambda>p k. \<Sum>m<n. Ublock p m * Sv m * Vblock k m)"

definition reconstructed_block :: "svt \<Rightarrow> real \<Rightarrow> nat \<Rightarrow> mat" where
  "reconstructed_block s lambda it =
     usv_product (svt_Nt s) (svt_U s ! it) (Sthresh s lambda it) (svt_V s ! it)"

text \<open>
  \<^verbatim>\<open>c(span(newY, ...), span(newX, ...), span(k, k)) += m\<close> for a
  \<open>blockSize \<times> blockSize\<close> matrix \<open>m\<close>.
\<close>

definition in_block :: "nat \<Rightarrow> int \<Rightarrow> int \<Rightarrow> nat \<Rightarrow> nat \<Rightarrow> bool" where
  "in_block blockSize newY newX r c \<longleftrightarrow>
     newY \<le> int r \<and> int r < newY + int blockSize \<and> newX \<le> int c \<and> int c < newX + int blockSize"

definition add_block :: "cube \<Rightarrow> nat \<Rightarrow> int \<Rightarrow> int \<Rightarrow> nat \<Rightarrow> mat \<Rightarrow> cube" where
  "add_block c blockSize newY newX k m =
     (\<lambda>r cl k'. if k' = k \<and> in_block blockSize newY newX r cl
                then c r cl k' + m (nat (int r - newY)) (nat (int cl - newX))
                else c r cl k')"

text \<open>\<^verbatim>\<open>arma::reshape(block.col(k), blockSize, blockSize)\<close> (column-major order).\<close>

definition reshape_col :: "mat \<Rightarrow> nat \<Rightarrow> nat \<Rightarrow> mat" where
  "reshape_col block k blockSize = (\<lambda>r c. block (r + c * blockSize) k)"

text \<open>The loop over the frames of one patch (lines 183-195).\<close>

fun accumulate_patch ::
  "svt \<Rightarrow> nat \<Rightarrow> mat \<Rightarrow> nat list \<Rightarrow> cube \<times> cube \<Rightarrow> svt_error + cube \<times> cube" where
  "accumulate_patch s it block [] vw = Inr vw"
| "accumulate_patch s it block (k # ks) vw =
     (case svt_patches s (svt_actualPatches s ! it) k of
        None \<Rightarrow> Inl IndexOutOfBounds
      | Some (newY, newX) \<Rightarrow>
          if span_ok (svt_Nx s) (svt_blockSize s) newY \<and> span_ok (svt_Ny s) (svt_blockSize s) newX
          then accumulate_patch s it block ks
                 (add_block (fst vw) (svt_blockSize s) newY newX k
                    (reshape_col block k (svt_blockSize s)),
                  add_block (snd vw) (svt_blockSize s) newY newX k (\<lambda>r c. 1))
          else Inl IndexOutOfBounds)"

text \<open>The loop over the patches (lines 164-196).\<close>

fun accumulate ::
  "svt \<Rightarrow> real \<Rightarrow> nat list \<Rightarrow> cube \<times> cube \<Rightarrow> svt_error + cube \<times> cube" where
  "accumulate s lambda [] vw = Inr vw"
| "accumulate s lambda (it # its) vw =
     bind_err (accumulate_patch s it (reconstructed_block s lambda it) [0 ..< svt_Nt s] vw)
       (accumulate s lambda its)"

text \<open>
  The accumulator \<^verbatim>\<open>v\<close> and the weight accumulator \<^verbatim>\<open>weights\<close> as they are when the
  loop over the patches has ended.
\<close>

definition accumulators :: "svt \<Rightarrow> real \<Rightarrow> svt_error + cube \<times> cube" where
  "accumulators s lambda =
     accumulate s lambda [0 ..< svt_newVecSize s] (\<lambda>r c k. 0, \<lambda>r c k. 0)"

text \<open>
  \<^verbatim>\<open>v /= weights; v.elem(find_nonfinite(v)).zeros();\<close> Where the weight is zero the
  accumulated value is zero as well, the quotient is not finite and is replaced by zero.
\<close>

definition Reconstruct :: "svt \<Rightarrow> real \<Rightarrow> svt_error + cube" where
  "Reconstruct s lambda =
     bind_err (accumulators s lambda)
       (\<lambda>(v, weights). Inr (\<lambda>r c k. if weights r c k = 0 then 0 else v r c k / weights r c k))"

text \<open>The Frobenius norm of a matrix with \<open>rows\<close> rows and \<open>cols\<close> columns.\<close>

definition frobenius :: "nat \<Rightarrow> nat \<Rightarrow> mat \<Rightarrow> real" where
  "frobenius rows cols m = sqrt (\<Sum>p<rows. \<Sum>k<cols. (m p k)\<^sup>2)"

text \<open>The columns \<open>0, \<dots>, n - 1\<close> of a matrix with \<open>rows\<close> rows are orthonormal.\<close>

definition orthonormal_columns :: "nat \<Rightarrow> nat \<Rightarrow> mat \<Rightarrow> bool" where
  "orthonormal_columns rows n m \<longleftrightarrow>
     (\<forall>a<n. \<forall>b<n. (\<Sum>p<rows. m p a * m p b) = (if a = b then 1 else 0))"

text \<open>
  The contract of \<^verbatim>\<open>svd_econ\<close> for a block with \<open>rows\<close> rows and \<open>n\<close> columns: the
  product of the three factors is the block.
\<close>

definition svd_exact :: "nat \<Rightarrow> nat \<Rightarrow> (mat \<Rightarrow> mat \<times> vec \<times> mat) \<Rightarrow> mat \<Rightarrow> bool" where
  "svd_exact rows n svd block \<longleftrightarrow>
     (case svd block of (Um, Sv, Vm) \<Rightarrow>
        \<forall>p<rows. \<forall>k<n. usv_product n Um Sv Vm p k = block p k)"

text \<open>
  Where patch \<open>it\<close> of the decomposed set sits in frame \<open>k\<close>, whether its block lies inside
  the frame there, whether it covers the pixel in row \<open>r\<close> and column \<open>c\<close> of that frame,
  and the value it contributes to that pixel.
\<close>

definition patch_at :: "svt \<Rightarrow> nat \<Rightarrow> nat \<Rightarrow> (int \<times> int) option" where
  "patch_at s it k = svt_patches s (svt_actualPatches s ! it) k"

definition located :: "svt \<Rightarrow> nat \<Rightarrow> nat \<Rightarrow> bool" where
  "located s idx k \<longleftrightarrow>
     (case svt_patches s idx k of
        None \<Rightarrow> False
      | Some (newY, newX) \<Rightarrow>
          span_ok (svt_Nx s) (svt_blockSize s) newY \<and> span_ok (svt_Ny s) (svt_blockSize s) newX)"

definition covers :: "svt \<Rightarrow> nat \<Rightarrow> nat \<Rightarrow> nat \<Rightarrow> nat \<Rightarrow> bool" where
  "covers s it k r c \<longleftrightarrow>
     (case patch_at s it k of
        None \<Rightarrow> False
      | Some (newY, newX) \<Rightarrow> in_block (svt_blockSize s) newY newX r c)"

definition patch_value :: "svt \<Rightarrow> nat \<Rightarrow> mat \<Rightarrow> nat \<Rightarrow> nat \<Rightarrow> nat \<Rightarrow> real" where
  "patch_value s it block k r c =
     (case patch_at s it k of
        None \<Rightarrow> 0
      | Some (newY, newX) \<Rightarrow>
          reshape_col block k (svt_blockSize s) (nat (int r - newY)) (nat (int c - newX)))"

text \<open>
  The reference-frame location of patch \<open>idx\<close>, as the motion estimator fills it in
  (arps.hpp, lines 69-70): \<^verbatim>\<open>patches(0, i, ref) = i % (1 + nyMbs)\<close> and
  \<^verbatim>\<open>patches(1, i, ref) = i / (1 + nxMbs)\<close>.
\<close>

definition grid_origin :: "nat \<Rightarrow> nat \<Rightarrow> nat \<Rightarrow> int \<times> int" where
  "grid_origin nxMbs nyMbs idx = (int (idx mod (1 + nyMbs)), int (idx div (1 + nxMbs)))"

text \<open>
  In a square frame with \<open>n = Nx - blockSize\<close>: patch \<open>idx\<close>, sitting at its grid origin,
  covers the pixel in row \<open>r\<close> and column \<open>c\<close>.
\<close>

definition origin_covers :: "nat \<Rightarrow> nat \<Rightarrow> nat \<Rightarrow> nat \<Rightarrow> nat \<Rightarrow> bool" where
  "origin_covers n blockSize idx r c \<longleftrightarrow>
     idx mod (n + 1) \<le> r \<and> r < idx mod (n + 1) + blockSize \<and>
     idx div (n + 1) \<le> c \<and> c < idx div (n + 1) + blockSize"

section \<open>The block matcher (class \<^verbatim>\<open>MotionEstimator\<close>, arps.hpp)\<close>

text \<open>
  The members of the class (field \<open>me_x\<close> for the member \<^verbatim>\<open>x\<close>). The cubes
  \<^verbatim>\<open>patches\<close> and \<^verbatim>\<open>motions\<close> hold a pair of integers for every patch and frame:
  \<open>me_patches m it f\<close> is \<^verbatim>\<open>(patches(0, it, f), patches(1, it, f))\<close>, and likewise for
  \<open>me_motions\<close>.
\<close>

datatype arps_error = ArpsIndexOutOfBounds | ArpsDivisionByZero

record motion_estimator =
  me_A :: cube
  me_blockSize :: int
  me_timeIter :: nat
  me_timeWindow :: nat
  me_motionWindow :: nat
  me_nImages :: nat
  me_patches :: "nat \<Rightarrow> nat \<Rightarrow> int \<times> int"
  me_motions :: "nat \<Rightarrow> nat \<Rightarrow> int \<times> int"
  me_Nx :: nat
  me_Ny :: nat
  me_T :: nat
  me_nxMbs :: nat
  me_nyMbs :: nat
  me_vecSize :: nat
  me_OoBlockSizeSq :: real

text \<open>
  The constructor (lines 34-57); \<open>Nx\<close>, \<open>Ny\<close> and \<open>T\<close> are the dimensions of the cube
  \<open>A\<close>. The subtraction \<^verbatim>\<open>Nx - blockSize\<close> is done in \<^verbatim>\<open>uint32_t\<close>.
\<close>

definition MotionEstimator ::
  "cube \<Rightarrow> nat \<Rightarrow> nat \<Rightarrow> nat \<Rightarrow> int \<Rightarrow> nat \<Rightarrow> nat \<Rightarrow> nat \<Rightarrow> nat \<Rightarrow> motion_estimator" where
  "MotionEstimator A Nx Ny T blockSize timeIter timeWindow motionWindow nImages =
     (let nxMbs = u32 (int Nx - blockSize);
          nyMbs = u32 (int Ny - blockSize)
      in \<lparr> me_A = A, me_blockSize = blockSize, me_timeIter = timeIter,
           me_timeWindow = timeWindow, me_motionWindow = motionWindow, me_nImages = nImages,
           me_patches = (\<lambda>it f. (0, 0)), me_motions = (\<lambda>it f. (0, 0)),
           me_Nx = Nx, me_Ny = Ny, me_T = T,
           me_nxMbs = nxMbs, me_nyMbs = nyMbs,
           me_vecSize = u32 (int ((1 + nxMbs) * (1 + nyMbs))),
           me_OoBlockSizeSq = 1 / of_int (blockSize * blockSize) \<rparr>)"

subsection \<open>The search patterns and the cost vector\<close>

text \<open>
  Row \<open>k\<close> of the pattern matrices as the pair \<^verbatim>\<open>(SDSP(k, 0), SDSP(k, 1))\<close>: the
  horizontal and the vertical offset (lines 165-175 and 220-229). The sixth row of
  \<^verbatim>\<open>LDSP\<close> is the predicted motion, or zero when it is not used.
\<close>

definition SDSP :: "(int \<times> int) list" where
  "SDSP = [(0, - 1), (- 1, 0), (0, 0), (1, 0), (0, 1)]"

definition LDSP :: "int \<Rightarrow> int \<times> int \<Rightarrow> (int \<times> int) list" where
  "LDSP stepSize predicted =
     [(0, - stepSize), (- stepSize, 0), (0, 0), (stepSize, 0), (0, stepSize), predicted]"

definition costsScale :: real where
  "costsScale = 10 ^ 8"

text \<open>\<^verbatim>\<open>costs.fill(costsScale); costs(2) = cost;\<close>\<close>

definition reset_costs :: "real \<Rightarrow> real list" where
  "reset_costs cost = (replicate 6 costsScale)[2 := cost]"

text \<open>
  \<^verbatim>\<open>point = arma::find(costs == costs.min()); point(0)\<close>: the first index that holds the
  minimum.
\<close>

definition point0 :: "real list \<Rightarrow> nat" where
  "point0 costs = length (takeWhile (\<lambda>c. c \<noteq> arma_min costs) costs)"

text \<open>
  The step size and the number of candidates of the large pattern (lines 196-219): in the
  first column of patches the step is 2; elsewhere it is the larger component of the
  motion stored for this patch, and the stored motion is a sixth candidate unless it lies
  on an axis.
\<close>

definition rood :: "motion_estimator \<Rightarrow> nat \<Rightarrow> nat \<Rightarrow> int \<Rightarrow> int \<times> nat \<times> (int \<times> int)" where
  "rood m it iARPS3 j =
     (if j = 0 then (2, 5, (0, 0))
      else
        let yTmp = \<bar>fst (me_motions m it iARPS3)\<bar>;
            xTmp = \<bar>snd (me_motions m it iARPS3)\<bar>;
            stepSize = (if xTmp \<le> yTmp then yTmp else xTmp)
        in if (xTmp = stepSize \<and> yTmp = 0) \<or> (xTmp = 0 \<and> yTmp = stepSize)
           then (stepSize, 5, (0, 0))
           else (stepSize, 6, (snd (me_motions m it iARPS3), fst (me_motions m it iARPS3))))"

text \<open>
  The test that skips a candidate whose block leaves the frame (lines 240 and 310). The
  sums \<^verbatim>\<open>refBlkHor + blockSize - 1\<close> are compared with the unsigned \<^verbatim>\<open>Ny\<close>, hence as
  unsigned numbers.
\<close>

definition outside_frame :: "motion_estimator \<Rightarrow> int \<Rightarrow> int \<Rightarrow> bool" where
  "outside_frame m refBlkVer refBlkHor \<longleftrightarrow>
     refBlkHor < 0 \<or> u32 (refBlkHor + me_blockSize m - 1) \<ge> me_Ny m \<or>
     refBlkVer < 0 \<or> u32 (refBlkVer + me_blockSize m - 1) \<ge> me_Nx m"

text \<open>
  The cost of a candidate (lines 250-287): the squared Frobenius norm of the difference
  between the reference block, at the patch origin \<open>(i, j)\<close> in frame \<open>iARPS1\<close>, and the
  block at \<open>(refBlkVer, refBlkHor)\<close> in frame \<open>iARPS2\<close>, divided by the block area. The
  predictive term is guarded by \<^verbatim>\<open>pMotion > 0.0\<close> with \<^verbatim>\<open>pMotion = 0.0\<close>, so it is never
  added, and the three cases of \<^verbatim>\<open>curFrame\<close> compute the same value.
\<close>

definition block_difference_norm ::
  "motion_estimator \<Rightarrow> nat \<Rightarrow> nat \<Rightarrow> int \<Rightarrow> int \<Rightarrow> int \<Rightarrow> int \<Rightarrow> real" where
  "block_difference_norm m iARPS1 iARPS2 i j refBlkVer refBlkHor =
     sqrt (\<Sum>r<nat (me_blockSize m). \<Sum>c<nat (me_blockSize m).
             (me_A m (nat i + r) (nat j + c) iARPS1
              - me_A m (nat refBlkVer + r) (nat refBlkHor + c) iARPS2)\<^sup>2)"

definition block_cost ::
  "motion_estimator \<Rightarrow> nat \<Rightarrow> nat \<Rightarrow> int \<Rightarrow> int \<Rightarrow> int \<Rightarrow> int \<Rightarrow> real" where
  "block_cost m iARPS1 iARPS2 i j refBlkVer refBlkHor =
     (let norm = block_difference_norm m iARPS1 iARPS2 i j refBlkVer refBlkHor
      in norm * norm * me_OoBlockSizeSq m)"

text \<open>
  \<^verbatim>\<open>checkMat\<close> is a square 0/1 matrix with \<open>2 * motionWindow + 1\<close> rows; it is the set of
  the cells that hold 1. An access outside the matrix raises an error.
\<close>

definition cell_ok :: "int \<Rightarrow> int \<Rightarrow> int \<Rightarrow> bool" where
  "cell_ok w r c \<longleftrightarrow> 0 \<le> r \<and> r \<le> 2 * w \<and> 0 \<le> c \<and> c \<le> 2 * w"

subsection \<open>The large pattern (lines 235-291)\<close>

text \<open>
  The search is written for any frame test \<open>outside\<close> and cost \<open>cost\<close> of a candidate
  position (vertical, horizontal); \<open>w\<close> is \<^verbatim>\<open>motionWindow\<close>, \<open>(i, j)\<close> the patch origin and
  \<open>(x, y)\<close> the current centre.
\<close>

fun ldsp_pass ::
  "(int \<Rightarrow> int \<Rightarrow> bool) \<Rightarrow> (int \<Rightarrow> int \<Rightarrow> real) \<Rightarrow> int \<Rightarrow> int \<Rightarrow> int \<Rightarrow>
   (int \<times> int) list \<Rightarrow> int \<Rightarrow> nat list \<Rightarrow> real list \<times> (int \<times> int) set \<Rightarrow>
   arps_error + real list \<times> (int \<times> int) set" where
  "ldsp_pass outside cost w x y pattern stepSize [] st = Inr st"
| "ldsp_pass outside cost w x y pattern stepSize (k # ks) st =
     (let refBlkVer = y + snd (pattern ! k);
          refBlkHor = x + fst (pattern ! k)
      in if outside refBlkVer refBlkHor
         then ldsp_pass outside cost w x y pattern stepSize ks st
         else if k = 2 \<or> stepSize = 0
         then ldsp_pass outside cost w x y pattern stepSize ks st
         else if \<not> cell_ok w (snd (pattern ! k) + w) (fst (pattern ! k) + w)
         then Inl ArpsIndexOutOfBounds
         else ldsp_pass outside cost w x y pattern stepSize ks
                ((fst st)[k := cost refBlkVer refBlkHor],
                 insert (snd (pattern ! k) + w, fst (pattern ! k) + w) (snd st)))"

subsection \<open>The small pattern (lines 300-385)\<close>

text \<open>
  The \<^verbatim>\<open>for\<close> loop over the five candidates (lines 305-370). The bounds of line 318,
  \<^verbatim>\<open>(int)(j - motionWindow)\<close> and the like, are computed in \<^verbatim>\<open>uint32_t\<close> and cast back;
  they are the integers \<open>j - w\<close> and \<open>j + w\<close> when the coordinates and \<^verbatim>\<open>motionWindow\<close>
  are below \<open>2\<^sup>3\<^sup>1\<close>, which is taken for granted here, as it is for the sums that index
  \<^verbatim>\<open>checkMat\<close>.
\<close>

fun sdsp_pass ::
  "(int \<Rightarrow> int \<Rightarrow> bool) \<Rightarrow> (int \<Rightarrow> int \<Rightarrow> real) \<Rightarrow> int \<Rightarrow> int \<Rightarrow> int \<Rightarrow> int \<Rightarrow> int \<Rightarrow>
   nat list \<Rightarrow> real list \<times> (int \<times> int) set \<Rightarrow> arps_error + real list \<times> (int \<times> int) set" where
  "sdsp_pass outside cost w i j x y [] st = Inr st"
| "sdsp_pass outside cost w i j x y (k # ks) st =
     (let refBlkVer = y + snd (SDSP ! k);
          refBlkHor = x + fst (SDSP ! k)
      in if outside refBlkVer refBlkHor
         then sdsp_pass outside cost w i j x y ks st
         else if k = 2
         then sdsp_pass outside cost w i j x y ks st
         else if refBlkHor < j - w \<or> refBlkHor > j + w \<or> refBlkVer < i - w \<or> refBlkVer > i + w
         then sdsp_pass outside cost w i j x y ks st
         else if \<not> cell_ok w (y - i + snd (SDSP ! k) + w) (x - j + fst (SDSP ! k) + w)
         then Inl ArpsIndexOutOfBounds
         else if (y - i + snd (SDSP ! k) + w, x - j + fst (SDSP ! k) + w) \<in> snd st
         then sdsp_pass outside cost w i j x y ks st
         else sdsp_pass outside cost w i j x y ks
                ((fst st)[k := cost refBlkVer refBlkHor],
                 insert (y - i + snd (SDSP ! k) + w, x - j + fst (SDSP ! k) + w) (snd st)))"

text \<open>
  The \<^verbatim>\<open>do ... while (!doneFlag)\<close> loop. It ends when the centre (index 2) is the first
  minimum; otherwise the centre moves by row \<^verbatim>\<open>point(0)\<close> of \<^verbatim>\<open>SDSP\<close>, which has five
  rows. The result is the final centre \<open>(y, x)\<close>; \<open>None\<close> is a loop that never ends.
\<close>

partial_function (option) sdsp_search ::
  "(int \<Rightarrow> int \<Rightarrow> bool) \<Rightarrow> (int \<Rightarrow> int \<Rightarrow> real) \<Rightarrow> int \<Rightarrow> int \<Rightarrow> int \<Rightarrow> int \<Rightarrow> int \<Rightarrow>
   real list \<Rightarrow> (int \<times> int) set \<Rightarrow> (arps_error + int \<times> int) option" where
  "sdsp_search outside cost w i j x y costs checkMat =
     (case sdsp_pass outside cost w i j x y [0 ..< 5] (costs, checkMat) of
        Inl e \<Rightarrow> Some (Inl e)
      | Inr st \<Rightarrow>
          if point0 (fst st) = 2 then Some (Inr (y, x))
          else if point0 (fst st) \<ge> 5 then Some (Inl ArpsIndexOutOfBounds)
          else sdsp_search outside cost w i j
                 (x + fst (SDSP ! point0 (fst st))) (y + snd (SDSP ! point0 (fst st)))
                 (reset_costs (arma_min (fst st))) (snd st))"

subsection \<open>One patch, and all patches of a frame pair (lines 149-393)\<close>

text \<open>
  The reference and the co-located block are read from the frames \<open>iARPS1\<close> and
  \<open>iARPS2\<close> at the patch origin (lines 183-189), and away from the first column the
  stored motion is read from frame \<open>iARPS3\<close> of \<^verbatim>\<open>motions\<close> (lines 206-207); each of
  these accesses raises an error outside the cube.
\<close>

definition patch_readable :: "motion_estimator \<Rightarrow> nat \<Rightarrow> nat \<Rightarrow> nat \<Rightarrow> int \<Rightarrow> int \<Rightarrow> bool" where
  "patch_readable m iARPS1 iARPS2 iARPS3 i j \<longleftrightarrow>
     1 \<le> me_blockSize m \<and> i + me_blockSize m - 1 < int (me_Nx m) \<and>
     j + me_blockSize m - 1 < int (me_Ny m) \<and>
     iARPS1 < me_T m \<and> iARPS2 < me_T m \<and>
     (j \<noteq> 0 \<longrightarrow> iARPS3 < 2 * me_timeWindow m)"

definition arps_patch ::
  "motion_estimator \<Rightarrow> nat \<Rightarrow> nat \<Rightarrow> nat \<Rightarrow> nat \<Rightarrow> (arps_error + int \<times> int) option" where
  "arps_patch m iARPS1 iARPS2 iARPS3 it =
     (if u32 (1 + int (me_nxMbs m)) = 0 \<or> u32 (1 + int (me_nyMbs m)) = 0
      then Some (Inl ArpsDivisionByZero)
      else
        let i = int (it mod u32 (1 + int (me_nxMbs m)));
            j = int (it div u32 (1 + int (me_nyMbs m)));
            w = int (me_motionWindow m)
        in if \<not> patch_readable m iARPS1 iARPS2 iARPS3 i j then Some (Inl ArpsIndexOutOfBounds)
           else
             case rood m it iARPS3 j of (stepSize, maxIdx, predicted) \<Rightarrow>
             case ldsp_pass (outside_frame m) (block_cost m iARPS1 iARPS2 i j) w j i
                    (LDSP stepSize predicted) stepSize [0 ..< maxIdx]
                    (reset_costs (block_cost m iARPS1 iARPS2 i j i j), {(w, w)}) of
               Inl e \<Rightarrow> Some (Inl e)
             | Inr st \<Rightarrow>
                 sdsp_search (outside_frame m) (block_cost m iARPS1 iARPS2 i j) w i j
                   (j + fst (LDSP stepSize predicted ! point0 (fst st)))
                   (i + snd (LDSP stepSize predicted ! point0 (fst st)))
                   (reset_costs (arma_min (fst st))) (snd st))"

text \<open>
  Lines 387-390: the motion of patch \<open>it\<close> goes into frame \<open>iARPS3\<close> of \<^verbatim>\<open>motions\<close>
  (which has \<open>2 * timeWindow\<close> frames), its location into frame \<open>iARPS2\<close> of \<^verbatim>\<open>patches\<close>
  (which has one more).
\<close>

definition store_patch ::
  "motion_estimator \<Rightarrow> nat \<Rightarrow> nat \<Rightarrow> nat \<Rightarrow> int \<times> int \<Rightarrow> arps_error + motion_estimator" where
  "store_patch m iARPS2 iARPS3 it yx =
     (let i = int (it mod u32 (1 + int (me_nxMbs m)));
          j = int (it div u32 (1 + int (me_nyMbs m)))
      in if iARPS3 < 2 * me_timeWindow m \<and> iARPS2 < 2 * me_timeWindow m + 1
         then Inr (m\<lparr> me_motions :=
                         (me_motions m)(it := (me_motions m it)(iARPS3 := (fst yx - i, snd yx - j))),
                       me_patches := (me_patches m)(it := (me_patches m it)(iARPS2 := yx)) \<rparr>)
         else Inl ArpsIndexOutOfBounds)"

fun arps_loop ::
  "motion_estimator \<Rightarrow> nat \<Rightarrow> nat \<Rightarrow> nat \<Rightarrow> nat list \<Rightarrow> (arps_error + motion_estimator) option" where
  "arps_loop m iARPS1 iARPS2 iARPS3 [] = Some (Inr m)"
| "arps_loop m iARPS1 iARPS2 iARPS3 (it # its) =
     (case arps_patch m iARPS1 iARPS2 iARPS3 it of
        None \<Rightarrow> None
      | Some (Inl e) \<Rightarrow> Some (Inl e)
      | Some (Inr yx) \<Rightarrow>
          (case store_patch m iARPS2 iARPS3 it yx of
             Inl e \<Rightarrow> Some (Inl e)
           | Inr m' \<Rightarrow> arps_loop m' iARPS1 iARPS2 iARPS3 its))"

text \<open>
  \<^verbatim>\<open>ARPSMotionEstimation(curFrame, iARPS1, iARPS2, iARPS3)\<close>. The frame indices are
  non-negative in every call of \<^verbatim>\<open>Estimate\<close>; \<open>curFrame\<close> only selects among the three
  equal cost computations.
\<close>

definition ARPSMotionEstimation ::
  "motion_estimator \<Rightarrow> int \<Rightarrow> nat \<Rightarrow> nat \<Rightarrow> nat \<Rightarrow> (arps_error + motion_estimator) option" where
  "ARPSMotionEstimation m curFrame iARPS1 iARPS2 iARPS3 =
     arps_loop m iARPS1 iARPS2 iARPS3 [0 ..< me_vecSize m]"

text \<open>The search box of a patch with origin \<open>(i, j)\<close>.\<close>

definition in_box :: "int \<Rightarrow> int \<Rightarrow> int \<Rightarrow> int \<Rightarrow> int \<Rightarrow> bool" where
  "in_box w i j y x \<longleftrightarrow> \<bar>y - i\<bar> \<le> w \<and> \<bar>x - j\<bar> \<le> w"

text \<open>The grid origin \<open>(i, j)\<close> of patch \<open>it\<close> (lines 177-178).\<close>

definition patch_origin :: "motion_estimator \<Rightarrow> nat \<Rightarrow> int \<times> int" where
  "patch_origin m it =
     (int (it mod u32 (1 + int (me_nxMbs m))), int (it div u32 (1 + int (me_nyMbs m))))"

text \<open>The cells of \<^verbatim>\<open>checkMat\<close>.\<close>

definition grid_cells :: "int \<Rightarrow> (int \<times> int) set" where
  "grid_cells w = {0 .. 2 * w} \<times> {0 .. 2 * w}"

subsection \<open>A concrete run of the driver\<close>

text \<open>
  Two frames of one pixel each, patch size and trajectory length one, a tolerance entry
  in the parameter file, and an optimizer that halves its starting value.
\<close>

definition example_options :: program_options where
  "example_options =
     [''filename'' \<mapsto> ''a.tif'', ''start_image'' \<mapsto> ''1'', ''end_image'' \<mapsto> ''2'',
      ''patch_size'' \<mapsto> ''1'', ''trajectory_length'' \<mapsto> ''1'', ''tolerance'' \<mapsto> ''1E-3'']"

definition example_tiff :: tiff_file where
  "example_tiff = \<lparr> file_exists = True, tiffWidth = 1, tiffHeight = 1, tiffDepth = 16, directories = 2 \<rparr>"

definition example_api :: pgure_api where
  "example_api =
     \<lparr> pgure_Optimize = (\<lambda>timeiter t start mx n. ieee_scale (1 / 2) start),
       pgure_Reconstruct = (\<lambda>timeiter lam. case lam of Finite l \<Rightarrow> [[1 - l]] | _ \<Rightarrow> [[0]]) \<rparr>"

definition example_config :: config where
  "example_config =
     \<lparr> cfg_num_images = 2, cfg_Bs = 1, cfg_T = 1, cfg_alpha = Finite (- 1), cfg_mu = Finite (- 1),
       cfg_sigma = Finite (- 1), cfg_pgureOpt = True, cfg_lambda = Finite 0, cfg_MotionP = 7,
       cfg_MedianSize = 5,
       cfg_tol = 1 / 10 ^ 7, cfg_Bo = 1, cfg_NoiseMethod = 4, cfg_hotpixelthreshold = 10,
       cfg_Nx = 1, cfg_Ny = 1 \<rparr>"

definition bad_geometry_options :: program_options where
  "bad_geometry_options =
     [''filename'' \<mapsto> ''a.tif'', ''start_image'' \<mapsto> ''1'', ''end_image'' \<mapsto> ''2'',
      ''patch_size'' \<mapsto> ''2'', ''trajectory_length'' \<mapsto> ''15'', ''patch_overlap'' \<mapsto> ''0'']"

text \<open>
  An optimizer that keeps its starting value and a reconstruction in which every sample
  is 1: on frames of equal brightness the assembled output is constant.
\<close>

definition constant_api :: pgure_api where
  "constant_api = \<lparr> pgure_Optimize = (\<lambda>timeiter t start mx n. start),
                     pgure_Reconstruct = (\<lambda>timeiter lam. [[1]]) \<rparr>"

subsection \<open>Concrete inputs of the SVT engine\<close>

text \<open>A patch-location cube in which no patch ever moves from its grid origin.\<close>

definition still_patches :: "nat \<Rightarrow> nat \<Rightarrow> nat \<Rightarrow> nat \<Rightarrow> (int \<times> int) option" where
  "still_patches nxMbs nyMbs idx k = Some (grid_origin nxMbs nyMbs idx)"

text \<open>A singular value decomposition of blocks with one row and one column.\<close>

definition svd_1x1 :: "mat \<Rightarrow> mat \<times> vec \<times> mat" where
  "svd_1x1 block = (\<lambda>p m. 1, \<lambda>m. \<bar>block 0 0\<bar>, \<lambda>k m. sgn (block 0 0))"

text \<open>A window in which every sample is 3.\<close>

definition flat_window :: cube where
  "flat_window = (\<lambda>r c k. 3)"

text \<open>
  One frame of one pixel, patch size and overlap one: the object after construction and
  after \<open>Decompose\<close> of the flat window.
\<close>

definition one_pixel_svt :: "bool \<Rightarrow> svt" where
  "one_pixel_svt expWeighting =
     \<lparr> svt_patches = still_patches 0 0, svt_Nx = 1, svt_Ny = 1, svt_Nt = 1,
       svt_blockSize = 1, svt_blockOverlap = 1, svt_expWeighting = expWeighting,
       svt_nxMbs = 0, svt_nyMbs = 0, svt_nxMbsDbo = 0, svt_nyMbsDbo = 0, svt_vecSize = 1,
       svt_actualPatches = [], svt_newVecSize = 0, svt_U = [], svt_S = [], svt_V = [] \<rparr>"

definition one_pixel_decomposed :: "bool \<Rightarrow> svt" where
  "one_pixel_decomposed expWeighting =
     (one_pixel_svt expWeighting)
       \<lparr> svt_actualPatches := [0], svt_newVecSize := 1,
         svt_U := [\<lambda>p m. 1], svt_S := [\<lambda>m. 3], svt_V := [\<lambda>k m. 1] \<rparr>"

text \<open>
  A singular value decomposition of blocks with \<open>rows\<close> rows and one column (not all
  zero): the normalized column, its length, and the scalar one.
\<close>

definition svd_column :: "nat \<Rightarrow> mat \<Rightarrow> mat \<times> vec \<times> mat" where
  "svd_column rows block =
     (let len = sqrt (\<Sum>p<rows. (block p 0)\<^sup>2)
      in (\<lambda>p m. block p 0 / len, \<lambda>m. len, \<lambda>k m. 1))"

text \<open>
  Two frames of 2 by 2 pixels, patch size one: every patch stays at its grid origin,
  except that the patch of the top-left pixel is found one row lower in the second frame.
\<close>

definition moved_patches :: "nat \<Rightarrow> nat \<Rightarrow> (int \<times> int) option" where
  "moved_patches idx k = (if idx = 0 \<and> k = 1 then Some (1, 0) else Some (grid_origin 1 1 idx))"

subsection \<open>Concrete inputs of the block matcher\<close>

text \<open>
  Two frames of two by two pixels: a bright pixel in the first row moves from the first
  column to the second. Blocks of one pixel, a search window of one pixel.
\<close>

definition moving_pixel :: cube where
  "moving_pixel r c k = (if r = 0 \<and> c = k then 1 else 0)"

definition example_estimator :: motion_estimator where
  "example_estimator = MotionEstimator moving_pixel 2 2 2 1 0 1 1 2"

section \<open>Properties\<close>

subsection \<open>The driver\<close>

lemma bind_err_Inr_iff: "bind_err m f = Inr y \<longleftrightarrow> (\<exists>x. m = Inr x \<and> f x = Inr y)"
  by (cases m) (simp_all add: bind_err_def)

lemma bind_err_Inl_iff:
  "bind_err m f = Inl e \<longleftrightarrow> (m = Inl e \<or> (\<exists>x. m = Inr x \<and> f x = Inl e))"
  by (cases m) (simp_all add: bind_err_def)

lemma collect_Inr:
  "collect rs = Inr xs \<Longrightarrow> length xs = length rs \<and> (\<forall>i<length rs. rs ! i = Inr (xs ! i))"
proof (induction rs arbitrary: xs)
  case Nil
  then show ?case by simp
next
  case (Cons r rs)
  from Cons.prems obtain x ys where r: "r = Inr x" and ys: "collect rs = Inr ys" and xs: "xs = x # ys"
    by (auto simp: bind_err_Inr_iff)
  from Cons.IH [OF ys] have len: "length ys = length rs" and nth: "\<forall>i<length rs. rs ! i = Inr (ys ! i)"
    by simp_all
  show ?case
  proof (intro conjI allI impI)
    show "length xs = length (r # rs)" using len xs by simp
  next
    fix i assume "i < length (r # rs)"
    then show "(r # rs) ! i = Inr (xs ! i)"
      using r xs nth by (cases i) simp_all
  qed
qed

lemma collect_map_Inr: "collect (map Inr xs) = Inr xs"
  by (induction xs) (simp_all add: bind_err_def)

lemma collect_Inl_member: "Inl e \<in> set rs \<Longrightarrow> \<exists>e'. collect rs = Inl e'"
  by (induction rs) (auto simp: bind_err_def split: sum.splits)

lemma foldl_max_Max: "foldl max (x::real) xs = Max (set (x # xs))"
proof -
  have "(\<lambda>y s. max s y) = (max :: real \<Rightarrow> real \<Rightarrow> real)"
    by (intro ext) (simp add: max.commute)
  then show ?thesis by (simp only: foldl_conv_fold Max.set_eq_fold)
qed

lemma arma_max_Max: "xs \<noteq> [] \<Longrightarrow> arma_max xs = Max (set xs)"
  unfolding arma_max_def using foldl_max_Max [of "hd xs" "tl xs"] by simp

lemma foldl_min_Min: "foldl min (x::real) xs = Min (set (x # xs))"
proof -
  have "(\<lambda>y s. min s y) = (min :: real \<Rightarrow> real \<Rightarrow> real)"
    by (intro ext) (simp add: min.commute)
  then show ?thesis by (simp only: foldl_conv_fold Min.set_eq_fold)
qed

lemma arma_min_Min: "xs \<noteq> [] \<Longrightarrow> arma_min xs = Min (set xs)"
  unfolding arma_min_def using foldl_min_Min [of "hd xs" "tl xs"] by simp

lemma stoi_dec_examples:
  "stoi_dec ''0'' = Some 0" "stoi_dec ''1'' = Some 1" "stoi_dec ''2'' = Some 2" "stoi_dec ''15'' = Some 15"
  by (simp_all add: stoi_dec_def digit_of_def)

lemma s32_id: "- (2 ^ 31) \<le> x \<Longrightarrow> x < 2 ^ 31 \<Longrightarrow> s32 x = x"
  by (simp add: s32_def)

lemma s32_small:
  "s32 0 = 0" "s32 1 = 1" "s32 2 = 2" "s32 3 = 3" "s32 4 = 4" "s32 (- 1) = - 1"
  by (simp_all add: s32_def)

lemma example_imported: "imported_slices example_tiff 1 2 = 2"
  by (simp add: imported_slices_def example_tiff_def upt_rec s32_small)

lemma example_startup:
  "startup stoi_dec stod_dec (\<lambda>s. 1 / 1000) (Finite 0) example_options example_tiff = Inr example_config"
  by (simp add: startup_def example_options_def example_imported bind_err_def required_def
      option_or_def stoi_dec_examples parse_tolerance_def adjust_T_def Let_def example_config_def
      s32_small)
    (simp add: example_tiff_def)

lemma example_func_0:
  "func example_config example_api [[2], [4]] 0 =
     Inr \<lparr> optimize_args = Some (1 / 10 ^ 7, Finite 1, Finite 1, 1000), reconstruct_arg = Finite (1 / 2),
           clean_frame = [1] \<rparr>"
  by (simp add: func_def example_config_def example_api_def cdiv_def slices_def slice_def
      bind_err_def arma_max_def accu_def arma_max_double_def ieee_div_def ieee_quot_def
      ieee_scale_def s32_small Let_def)

lemma example_func_1:
  "func example_config example_api [[2], [4]] 1 =
     Inr \<lparr> optimize_args = Some (1 / 10 ^ 7, Finite 0, Finite 1, 1000), reconstruct_arg = Finite 0,
           clean_frame = [4] \<rparr>"
  by (simp add: func_def example_config_def example_api_def cdiv_def slices_def slice_def
      bind_err_def arma_max_def accu_def arma_max_double_def ieee_div_def ieee_quot_def
      ieee_scale_def s32_small Let_def)

lemma example_parallel:
  "parallel (func example_config example_api [[2], [4]]) 2 =
     Inr [\<lparr> optimize_args = Some (1 / 10 ^ 7, Finite 1, Finite 1, 1000),
            reconstruct_arg = Finite (1 / 2), clean_frame = [1] \<rparr>,
          \<lparr> optimize_args = Some (1 / 10 ^ 7, Finite 0, Finite 1, 1000),
            reconstruct_arg = Finite 0, clean_frame = [4] \<rparr>]"
proof -
  have "[0 ..< nat 2] = [0, 1]" by (simp add: upt_rec)
  then show ?thesis
    by (simp add: parallel_def example_func_0 example_func_1 bind_err_def)
qed

lemma startup_lambda:
  assumes "startup stoi stod read_double indeterminate programOptions f = Inr cfg" "cfg_pgureOpt cfg"
  shows "cfg_lambda cfg = indeterminate"
  using assms
  by (auto simp: startup_def bind_err_Inr_iff Let_def split: if_splits)

lemma startup_tol:
  assumes "startup stoi stod read_double indeterminate programOptions f = Inr cfg"
  shows "cfg_tol cfg = 1 / 10 ^ 7"
proof -
  have pt: "parse_tolerance read_double programOptions = 1 / 10 ^ 7"
    by (simp add: parse_tolerance_def Let_def split: option.split)
  from assms show ?thesis
    by (auto simp: startup_def bind_err_Inr_iff Let_def pt split: if_splits)
qed

lemma func_optimize_args:
  assumes "func cfg api noisysequence timeiter = Inr r" "optimize_args r = Some (t, l, m, n)"
  shows "t = cfg_tol cfg"
  using assms
  by (auto simp: func_def bind_err_Inr_iff Let_def split: if_splits prod.splits)

lemma func_later_seed:
  assumes "func cfg api noisysequence timeiter = Inr r" "cfg_pgureOpt cfg" "timeiter \<noteq> 0"
  shows "\<exists>t m n. optimize_args r = Some (t, cfg_lambda cfg, m, n)"
  using assms
  by (auto simp: func_def bind_err_Inr_iff Let_def split: if_splits prod.splits)

lemma parallel_nth:
  assumes "parallel g n = Inr xs" "k < length xs"
  shows "g (int k) = Inr (xs ! k)"
proof -
  from assms(1) have c: "collect (map (\<lambda>i. g (int i)) [0 ..< nat n]) = Inr xs"
    by (simp add: parallel_def)
  from collect_Inr [OF c] assms(2) have "k < nat n" and "map (\<lambda>i. g (int i)) [0 ..< nat n] ! k = Inr (xs ! k)"
    by simp_all
  then show ?thesis by simp
qed

lemma option_or_upd_other:
  "k \<noteq> k' \<Longrightarrow> option_or conv (opts(k' \<mapsto> v)) k d = option_or conv opts k d"
  by (simp add: option_or_def)

lemma option_or_upd_same:
  "conv v = Some x \<Longrightarrow> option_or conv (opts(k \<mapsto> v)) k d = Inr x"
  by (simp add: option_or_def)

lemma required_upd_other:
  "k \<noteq> k' \<Longrightarrow> required conv (opts(k' \<mapsto> v)) k = required conv opts k"
  by (simp add: required_def)

lemma parse_tolerance_const: "parse_tolerance read_double opts = 1 / 10 ^ 7"
  by (simp add: parse_tolerance_def Let_def split: option.split)

lemma roundingD:
  assumes "rounding fl"
  shows "fl 0 = 0" "fl 1 = 1" "fl 65535 = 65535" "\<And>x y. x \<le> y \<Longrightarrow> fl x \<le> fl y"
  using assms by (auto simp: rounding_def mono_def)

lemma rounding_id: "rounding (\<lambda>x. x)"
  by (simp add: rounding_def mono_def)

lemma to_ushort_floor:
  assumes "0 \<le> x" "x \<le> 65535"
  shows "to_ushort (Finite x) = nat \<lfloor>x\<rfloor>" "to_ushort (Finite x) \<le> 65535"
proof -
  have f0: "0 \<le> \<lfloor>x\<rfloor>" using assms by simp
  have f1: "\<lfloor>x\<rfloor> \<le> 65535" using assms by (simp add: floor_le_iff)
  then have "\<lfloor>x\<rfloor> mod 65536 = \<lfloor>x\<rfloor>" using f0 by simp
  then show "to_ushort (Finite x) = nat \<lfloor>x\<rfloor>" using assms by (simp add: to_ushort_def)
  then show "to_ushort (Finite x) \<le> 65535" using f1 by linarith
qed

lemma min_le_max:
  assumes "cs \<noteq> []" "x \<in> set cs"
  shows "arma_min cs \<le> x" "x \<le> arma_max cs"
  using assms by (simp_all add: arma_min_Min arma_max_Max)

lemma normalized_constant:
  assumes "cs \<noteq> []" "arma_max cs = arma_min cs" "fl 0 = 0"
  shows "normalized fl cs = replicate (length cs) NaN"
proof -
  have "ieee_round fl (ieee_div (fl (x - arma_min cs)) (fl (arma_max cs - arma_min cs))) = NaN"
    if "x \<in> set cs" for x
  proof -
    from min_le_max [OF assms(1) that] assms(2) have "x = arma_min cs" by simp
    then show ?thesis using assms(2,3) by (simp add: ieee_div_def ieee_round_def)
  qed
  then have "map (\<lambda>x. ieee_round fl (ieee_div (fl (x - arma_min cs)) (fl (arma_max cs - arma_min cs)))) cs
             = map (\<lambda>x. NaN) cs"
    by (intro map_cong [OF refl])
  then show ?thesis by (simp add: normalized_def Let_def map_replicate_const)
qed

lemma normalize_output_constant:
  assumes "cs \<noteq> []" "arma_max cs = arma_min cs" "fl 0 = 0"
  shows "normalize_output fl cs = Inr (replicate (length cs) 0)"
  using assms(1)
  by (simp add: normalize_output_def normalized_constant [where fl = fl, OF assms] ieee_scale_def ieee_round_def
      to_ushort_def)

lemma normalized_finite:
  assumes "fl (arma_max cs - arma_min cs) \<noteq> 0"
  shows "normalized fl cs =
           map (\<lambda>x. Finite (fl (fl (x - arma_min cs) / fl (arma_max cs - arma_min cs)))) cs"
  using assms by (simp add: normalized_def Let_def ieee_div_def ieee_round_def)

lemma normalize_output_finite:
  assumes "cs \<noteq> []" "fl (arma_max cs - arma_min cs) \<noteq> 0"
  shows "normalize_output fl cs =
           Inr (map (\<lambda>x. to_ushort (Finite (fl (65535 * fl (fl (x - arma_min cs) / fl (arma_max cs - arma_min cs))))))
                    cs)"
  using assms(1)
  by (simp add: normalize_output_def normalized_finite [where fl = fl, OF assms(2)] ieee_scale_def ieee_round_def
      comp_def)

lemma scaled_in_range:
  assumes r: "rounding fl" and ne: "cs \<noteq> []" and x: "x \<in> set cs"
    and d: "fl (arma_max cs - arma_min cs) \<noteq> 0"
  shows "0 \<le> fl (65535 * fl (fl (x - arma_min cs) / fl (arma_max cs - arma_min cs)))"
        "fl (65535 * fl (fl (x - arma_min cs) / fl (arma_max cs - arma_min cs))) \<le> 65535"
proof -
  note fl = roundingD [OF r]
  define a where "a = fl (x - arma_min cs)"
  define b where "b = fl (arma_max cs - arma_min cs)"
  note mm = min_le_max [OF ne x]
  have a0: "0 \<le> a" using fl(4) [of 0 "x - arma_min cs"] mm(1) by (simp add: a_def fl(1))
  have ab: "a \<le> b" using fl(4) [of "x - arma_min cs" "arma_max cs - arma_min cs"] mm(2)
    by (simp add: a_def b_def)
  have b0: "0 < b" using a0 ab d by (simp add: b_def)
  define q where "q = fl (a / b)"
  have "0 \<le> a / b" "a / b \<le> 1" using a0 ab b0 by simp_all
  then have q: "0 \<le> q" "q \<le> 1" using fl(4) [of 0 "a / b"] fl(4) [of "a / b" 1]
    by (simp_all add: q_def fl(1) fl(2))
  then have "0 \<le> 65535 * q" "65535 * q \<le> 65535" by simp_all
  then have "0 \<le> fl (65535 * q)" "fl (65535 * q) \<le> 65535"
    using fl(4) [of 0 "65535 * q"] fl(4) [of "65535 * q" 65535] by (simp_all add: fl(1) fl(3))
  then show "0 \<le> fl (65535 * fl (fl (x - arma_min cs) / fl (arma_max cs - arma_min cs)))"
        "fl (65535 * fl (fl (x - arma_min cs) / fl (arma_max cs - arma_min cs))) \<le> 65535"
    by (simp_all only: q_def a_def b_def)
qed

lemma normalize_output_values:
  assumes r: "rounding fl" and ne: "cs \<noteq> []" and d: "fl (Max (set cs) - Min (set cs)) \<noteq> 0"
  shows "normalize_output fl cs =
           Inr (map (\<lambda>x. nat \<lfloor>fl (65535 * fl (fl (x - Min (set cs)) / fl (Max (set cs) - Min (set cs))))\<rfloor>) cs)"
proof -
  have d': "fl (arma_max cs - arma_min cs) \<noteq> 0" using d ne by (simp add: arma_max_Max arma_min_Min)
  have "map (\<lambda>x. to_ushort (Finite (fl (65535 * fl (fl (x - arma_min cs) / fl (arma_max cs - arma_min cs)))))) cs
        = map (\<lambda>x. nat \<lfloor>fl (65535 * fl (fl (x - arma_min cs) / fl (arma_max cs - arma_min cs)))\<rfloor>) cs"
    by (rule map_cong [OF refl]) (rule to_ushort_floor(1) [OF scaled_in_range [OF r ne _ d']])
  then have "normalize_output fl cs =
      Inr (map (\<lambda>x. nat \<lfloor>fl (65535 * fl (fl (x - arma_min cs) / fl (arma_max cs - arma_min cs)))\<rfloor>) cs)"
    by (simp only: normalize_output_finite [where fl = fl, OF ne d'])
  then show ?thesis
    by (simp only: arma_max_Max [OF ne] arma_min_Min [OF ne])
qed

lemma normalize_output_range:
  assumes r: "rounding fl" and ne: "cs \<noteq> []" and d: "fl (Max (set cs) - Min (set cs)) \<noteq> 0"
    and out: "normalize_output fl cs = Inr out"
  shows "(\<forall>y \<in> set out. y \<le> 65535) \<and> 0 \<in> set out \<and> 65535 \<in> set out"
proof -
  note fl = roundingD [OF r]
  have d': "fl (arma_max cs - arma_min cs) \<noteq> 0" using d ne by (simp add: arma_max_Max arma_min_Min)
  let ?g = "\<lambda>x. to_ushort (Finite (fl (65535 * fl (fl (x - arma_min cs) / fl (arma_max cs - arma_min cs)))))"
  have o: "out = map ?g cs" using out normalize_output_finite [where fl = fl, OF ne d'] by simp
  have fin: "finite (set cs)" "set cs \<noteq> {}" using ne by simp_all
  have lo_in: "arma_min cs \<in> set cs" using Min_in [OF fin] ne by (simp add: arma_min_Min)
  have hi_in: "arma_max cs \<in> set cs" using Max_in [OF fin] ne by (simp add: arma_max_Max)
  have bound: "\<forall>y \<in> set out. y \<le> 65535"
  proof
    fix y assume "y \<in> set out"
    then obtain x where x: "x \<in> set cs" and y: "y = ?g x" using o by auto
    from to_ushort_floor(2) [OF scaled_in_range [OF r ne x d']] show "y \<le> 65535"
      using y by (simp only:)
  qed
  have "?g (arma_min cs) \<in> set out" using lo_in o by (simp only: set_map) (rule imageI)
  then have zero: "0 \<in> set out" by (simp add: fl(1) to_ushort_def)
  have "?g (arma_max cs) \<in> set out" using hi_in o by (simp only: set_map) (rule imageI)
  then have top: "65535 \<in> set out" using d' by (simp add: fl(2) fl(3) to_ushort_def)
  show ?thesis using bound zero top by blast
qed

lemma normalize_output_succeeds: "cs \<noteq> [] \<Longrightarrow> \<exists>out. normalize_output fl cs = Inr out"
  by (simp add: normalize_output_def)

lemma normalize_output_Inr: "normalize_output fl cs = Inr out \<Longrightarrow> cs \<noteq> []"
  by (auto simp: normalize_output_def split: if_splits)

lemma main_Inr_iff:
  "main fl stoi stod read_double indeterminate programOptions f api noisysequence = Inr out \<longleftrightarrow>
     (\<exists>cfg results.
        startup stoi stod read_double indeterminate programOptions f = Inr cfg \<and>
        parallel (func cfg api noisysequence) (cfg_num_images cfg) = Inr results \<and>
        normalize_output fl (concat (map clean_frame results)) = Inr out)"
  by (simp add: main_def bind_err_Inr_iff)

lemma stoi_dec_65536: "stoi_dec ''65536'' = Some 65536"
  by (simp add: stoi_dec_def digit_of_def)


lemma constant_func_0:
  "func example_config constant_api [[3], [3]] 0 =
     Inr \<lparr> optimize_args = Some (1 / 10 ^ 7, Finite 1, Finite 1, 1000), reconstruct_arg = Finite 1,
           clean_frame = [3] \<rparr>"
  by (simp add: func_def example_config_def constant_api_def cdiv_def slices_def slice_def
      bind_err_def arma_max_def accu_def arma_max_double_def ieee_div_def ieee_quot_def
      s32_small Let_def)

lemma constant_func_1:
  "func example_config constant_api [[3], [3]] 1 =
     Inr \<lparr> optimize_args = Some (1 / 10 ^ 7, Finite 0, Finite 1, 1000), reconstruct_arg = Finite 0,
           clean_frame = [3] \<rparr>"
  by (simp add: func_def example_config_def constant_api_def cdiv_def slices_def slice_def
      bind_err_def arma_max_def accu_def arma_max_double_def ieee_div_def ieee_quot_def
      s32_small Let_def)

lemma constant_parallel:
  "parallel (func example_config constant_api [[3], [3]]) 2 =
     Inr [\<lparr> optimize_args = Some (1 / 10 ^ 7, Finite 1, Finite 1, 1000),
            reconstruct_arg = Finite 1, clean_frame = [3] \<rparr>,
          \<lparr> optimize_args = Some (1 / 10 ^ 7, Finite 0, Finite 1, 1000),
            reconstruct_arg = Finite 0, clean_frame = [3] \<rparr>]"
proof -
  have "[0 ..< nat 2] = [0, 1]" by (simp add: upt_rec)
  then show ?thesis
    by (simp add: parallel_def constant_func_0 constant_func_1 bind_err_def)
qed

subsection \<open>Claims about the driver\<close>

text \<open>
  C8 (as the code behaves). The claim says that a configured tolerance is the stopping
  threshold passed to \<^verbatim>\<open>Optimize\<close>. In the code the parsed value lands in a shadowing
  inner variable: whatever the parameter file says, the tolerance \<^verbatim>\<open>main\<close> holds after
  start-up is the built-in default \<open>1E-7\<close>, and every window task that calls
  \<^verbatim>\<open>Optimize\<close> passes that default as the first argument.
\<close>

theorem tolerance_always_default:
  "startup stoi stod read_double indeterminate programOptions f = Inr cfg \<Longrightarrow>
   func cfg api noisysequence timeiter = Inr r \<Longrightarrow>
   optimize_args r = Some (t, l, m, n) \<Longrightarrow>
   cfg_tol cfg = 1 / 10 ^ 7 \<and> t = 1 / 10 ^ 7"
  using startup_tol func_optimize_args by metis

text \<open>
  The run with the entry \<^verbatim>\<open>tolerance : 1E-3\<close>: start-up succeeds and the first window
  calls \<^verbatim>\<open>Optimize\<close> with \<open>1E-7\<close>.
\<close>

theorem tolerance_always_default_witness:
  "example_options ''tolerance'' = Some ''1E-3'' \<and>
   startup stoi_dec stod_dec (\<lambda>s. 1 / 1000) (Finite 0) example_options example_tiff = Inr example_config \<and>
   cfg_tol example_config = 1 / 10 ^ 7 \<and>
   (\<exists>r l m n. func example_config example_api [[2], [4]] 0 = Inr r \<and>
      optimize_args r = Some (1 / 10 ^ 7, l, m, n))"
proof -
  have a: "optimize_args \<lparr> optimize_args = Some (1 / 10 ^ 7, Finite 1, Finite 1, 1000),
             reconstruct_arg = Finite (1 / 2), clean_frame = [1] \<rparr>
           = Some (1 / 10 ^ 7, Finite 1, Finite 1, 1000 :: real)"
    by simp
  from tolerance_always_default [OF example_startup example_func_0 a]
  have "cfg_tol example_config = 1 / 10 ^ 7" by simp
  moreover have "example_options ''tolerance'' = Some ''1E-3''"
    by (simp add: example_options_def)
  ultimately show ?thesis
    using example_startup example_func_0 a by blast
qed

text \<open>
  C4 (as the code behaves). The claim says that with the optimization switched on every
  window after the first is seeded with the previous window's optimized threshold. In the
  code each call of the closure starts from the copy of \<^verbatim>\<open>lambda\<close> captured when the
  closure was created, and with the optimization on that variable was never assigned:
  for every window index \<open>k > 0\<close> the starting value handed to \<^verbatim>\<open>Optimize\<close> is that
  indeterminate value, whatever the other windows computed.
\<close>

theorem later_windows_seeded_with_captured_lambda:
  assumes "startup stoi stod read_double indeterminate programOptions f = Inr cfg"
    and "cfg_pgureOpt cfg"
    and "parallel (func cfg api noisysequence) (cfg_num_images cfg) = Inr results"
    and "0 < k" and "k < length results"
  shows "\<exists>t m n. optimize_args (results ! k) = Some (t, indeterminate, m, n)"
proof -
  from parallel_nth [OF assms(3) assms(5)]
  have "func cfg api noisysequence (int k) = Inr (results ! k)" .
  from func_later_seed [OF this assms(2)] assms(4)
  have "\<exists>t m n. optimize_args (results ! k) = Some (t, cfg_lambda cfg, m, n)" by simp
  then show ?thesis using startup_lambda [OF assms(1) assms(2)] by simp
qed

text \<open>
  Two windows: the first is optimized to \<open>1/2\<close>, the second starts its search from the
  captured value (here \<open>0\<close>), not from \<open>1/2\<close>.
\<close>

theorem later_windows_seeded_with_captured_lambda_witness:
  "\<exists>results. parallel (func example_config example_api [[2], [4]]) 2 = Inr results \<and>
     reconstruct_arg (results ! 0) = Finite (1 / 2) \<and>
     (\<exists>t m n. optimize_args (results ! 1) = Some (t, Finite 0, m, n))"
proof -
  have p: "cfg_pgureOpt example_config" and n: "cfg_num_images example_config = 2"
    by (simp_all add: example_config_def)
  have par: "parallel (func example_config example_api [[2], [4]]) (cfg_num_images example_config) =
     Inr [\<lparr> optimize_args = Some (1 / 10 ^ 7, Finite 1, Finite 1, 1000),
            reconstruct_arg = Finite (1 / 2), clean_frame = [1] \<rparr>,
          \<lparr> optimize_args = Some (1 / 10 ^ 7, Finite 0, Finite 1, 1000),
            reconstruct_arg = Finite 0, clean_frame = [4] \<rparr>]"
    by (simp only: n example_parallel)
  from later_windows_seeded_with_captured_lambda [OF example_startup p par, of 1]
  show ?thesis using example_parallel by simp
qed

text \<open>
  C5, counterexample. Frames of one pixel, patch size 2 (larger than the frame), overlap 0
  (not positive) and trajectory length 15 (more than the 4 pixels of a block): start-up
  succeeds, keeps patch size and overlap, and replaces the trajectory length by 3.
\<close>

theorem geometry_accepted_counterexample:
  "\<exists>cfg. startup stoi_dec stod_dec (\<lambda>s. 0) (Finite 0) bad_geometry_options example_tiff = Inr cfg \<and>
     cfg_Nx cfg = 1 \<and> cfg_Ny cfg = 1 \<and> cfg_Bs cfg = 2 \<and> cfg_Bo cfg = 0 \<and> cfg_T cfg = 3"
  by (simp add: startup_def bad_geometry_options_def example_imported bind_err_def required_def
      option_or_def stoi_dec_examples parse_tolerance_def adjust_T_def Let_def s32_small)
    (simp add: example_tiff_def)

text \<open>
  C5, amended. Start-up does not validate the geometry: if it accepts a parameter file, it
  accepts the same file with any patch size, overlap and trajectory length that
  \<^verbatim>\<open>std::stoi\<close> reads; patch size and overlap are passed on unchanged, and the
  trajectory length is passed through the adjustment of line 135. When the squared patch
  size fits an \<^verbatim>\<open>int\<close> (patch sizes up to 46340) that adjustment replaces a trajectory
  length greater than the squared patch size by the squared patch size minus one and
  keeps any other; when the square overflows, the comparison is made with the wrapped
  product.
\<close>

theorem geometry_not_validated:
  assumes "stoi s1 = Some bs" and "stoi s2 = Some t" and "stoi s3 = Some bo"
    and "startup stoi stod read_double indeterminate programOptions f = Inr cfg"
  shows "startup stoi stod read_double indeterminate
           (programOptions(''patch_size'' \<mapsto> s1, ''trajectory_length'' \<mapsto> s2, ''patch_overlap'' \<mapsto> s3)) f
         = Inr (cfg\<lparr> cfg_Bs := bs, cfg_T := adjust_T bs t, cfg_Bo := bo \<rparr>) \<and>
         adjust_T bs t = (if s32 (bs * bs) < t then s32 (s32 (bs * bs) - 1) else t) \<and>
         (bs * bs < 2 ^ 31 \<longrightarrow> adjust_T bs t = (if bs * bs < t then bs * bs - 1 else t))"
proof (intro conjI impI)
  show "startup stoi stod read_double indeterminate
           (programOptions(''patch_size'' \<mapsto> s1, ''trajectory_length'' \<mapsto> s2, ''patch_overlap'' \<mapsto> s3)) f
         = Inr (cfg\<lparr> cfg_Bs := bs, cfg_T := adjust_T bs t, cfg_Bo := bo \<rparr>)"
    using assms
    by (auto simp: startup_def bind_err_Inr_iff Let_def option_or_upd_other option_or_upd_same
        required_upd_other parse_tolerance_const split: if_splits)
  show "adjust_T bs t = (if s32 (bs * bs) < t then s32 (s32 (bs * bs) - 1) else t)"
    by (simp add: adjust_T_def)
  assume small: "bs * bs < 2 ^ 31"
  have nn: "0 \<le> bs * bs" by simp
  have sq: "s32 (bs * bs) = bs * bs" using small nn by (intro s32_id) linarith+
  have "s32 (bs * bs - 1) = bs * bs - 1" using small nn by (intro s32_id) linarith+
  then show "adjust_T bs t = (if bs * bs < t then bs * bs - 1 else t)"
    by (simp add: adjust_T_def sq)
qed

text \<open>
  The accepted example file, with the geometry of the counterexample put in; and the
  same file with patch size 65536, whose square wraps to 0, so that the trajectory length
  15 becomes \<open>-1\<close>.
\<close>

theorem geometry_not_validated_witness:
  "startup stoi_dec stod_dec (\<lambda>s. 1 / 1000) (Finite 0)
     (example_options(''patch_size'' \<mapsto> ''2'', ''trajectory_length'' \<mapsto> ''15'', ''patch_overlap'' \<mapsto> ''0''))
     example_tiff
   = Inr (example_config\<lparr> cfg_Bs := 2, cfg_T := 3, cfg_Bo := 0 \<rparr>) \<and>
   startup stoi_dec stod_dec (\<lambda>s. 1 / 1000) (Finite 0)
     (example_options(''patch_size'' \<mapsto> ''65536'', ''trajectory_length'' \<mapsto> ''15'', ''patch_overlap'' \<mapsto> ''0''))
     example_tiff
   = Inr (example_config\<lparr> cfg_Bs := 65536, cfg_T := - 1, cfg_Bo := 0 \<rparr>)"
proof -
  have a: "adjust_T 2 15 = 3" "adjust_T 65536 15 = - 1"
    by (simp_all add: adjust_T_def s32_def)
  from geometry_not_validated [OF stoi_dec_examples(3) stoi_dec_examples(4) stoi_dec_examples(1)
      example_startup]
    geometry_not_validated [OF stoi_dec_65536 stoi_dec_examples(4) stoi_dec_examples(1)
      example_startup]
  show ?thesis by (simp only: a)
qed

text \<open>
  C9. With a rounding \<open>fl\<close> that is monotone and exact on 0, 1 and 65535: whatever the
  parameter file says, whenever start-up and the window tasks succeed and have assembled
  a sequence with at least one sample, \<^verbatim>\<open>main\<close> produces output; and whenever it produces
  output, the output is the assembled sequence \<open>cs\<close> of the window tasks, min-max
  normalized, multiplied by 65535 and cast to 16 bits. If \<open>cs\<close> is constant, every
  quotient of the normalization is \<open>0/0\<close>, a NaN, and every output sample is 0. If the
  rounded difference \<open>max - min\<close> is not zero (as it is for two distinct \<^verbatim>\<open>double\<close>s),
  the sample written for \<open>x\<close> is the integer part of
  \<open>fl (65535 * fl (fl (x - min) / fl (max - min)))\<close>, a value on the rescaled range and not
  on the input intensity scale: all samples are at most 65535, and 0 and 65535 both
  occur.
\<close>

theorem output_always_normalized:
  assumes "rounding fl"
  shows "(\<forall>cfg results.
            startup stoi stod read_double indeterminate programOptions f = Inr cfg \<longrightarrow>
            parallel (func cfg api noisysequence) (cfg_num_images cfg) = Inr results \<longrightarrow>
            concat (map clean_frame results) \<noteq> [] \<longrightarrow>
            (\<exists>out. main fl stoi stod read_double indeterminate programOptions f api noisysequence
                     = Inr out)) \<and>
         (\<forall>out.
            main fl stoi stod read_double indeterminate programOptions f api noisysequence = Inr out \<longrightarrow>
            (\<exists>cfg results cs.
               startup stoi stod read_double indeterminate programOptions f = Inr cfg \<and>
               parallel (func cfg api noisysequence) (cfg_num_images cfg) = Inr results \<and>
               cs = concat (map clean_frame results) \<and> cs \<noteq> [] \<and>
               out = map (\<lambda>q. to_ushort (ieee_round fl (ieee_scale 65535 q))) (normalized fl cs) \<and>
               (Max (set cs) = Min (set cs) \<longrightarrow>
                  normalized fl cs = replicate (length cs) NaN \<and> out = replicate (length cs) 0) \<and>
               (fl (Max (set cs) - Min (set cs)) \<noteq> 0 \<longrightarrow>
                  out = map (\<lambda>x. nat \<lfloor>fl (65535 * fl (fl (x - Min (set cs))
                                                         / fl (Max (set cs) - Min (set cs))))\<rfloor>) cs \<and>
                  (\<forall>y \<in> set out. y \<le> 65535) \<and> 0 \<in> set out \<and> 65535 \<in> set out)))"
proof (intro conjI allI impI)
  fix cfg results
  assume "startup stoi stod read_double indeterminate programOptions f = Inr cfg"
    and "parallel (func cfg api noisysequence) (cfg_num_images cfg) = Inr results"
    and "concat (map clean_frame results) \<noteq> []"
  then show "\<exists>out. main fl stoi stod read_double indeterminate programOptions f api noisysequence = Inr out"
    using normalize_output_succeeds [of "concat (map clean_frame results)" fl]
    by (auto simp: main_Inr_iff)
next
  fix out
  assume "main fl stoi stod read_double indeterminate programOptions f api noisysequence = Inr out"
  then obtain cfg results where
    st: "startup stoi stod read_double indeterminate programOptions f = Inr cfg"
    and par: "parallel (func cfg api noisysequence) (cfg_num_images cfg) = Inr results"
    and out: "normalize_output fl (concat (map clean_frame results)) = Inr out"
    by (auto simp: main_Inr_iff)
  define cs where "cs = concat (map clean_frame results)"
  have out': "normalize_output fl cs = Inr out" using out by (simp only: cs_def)
  have ne: "cs \<noteq> []" using out' by (rule normalize_output_Inr)
  have o: "out = map (\<lambda>q. to_ushort (ieee_round fl (ieee_scale 65535 q))) (normalized fl cs)"
    using out' ne by (simp add: normalize_output_def)
  have const: "normalized fl cs = replicate (length cs) NaN \<and> out = replicate (length cs) 0"
    if "Max (set cs) = Min (set cs)"
  proof -
    have eq: "arma_max cs = arma_min cs" using that ne by (simp add: arma_max_Max arma_min_Min)
    have z: "fl 0 = 0" using assms by (rule roundingD(1))
    from normalized_constant [where fl = fl, OF ne eq z]
      normalize_output_constant [where fl = fl, OF ne eq z] out'
    show ?thesis by simp
  qed
  have fin: "out = map (\<lambda>x. nat \<lfloor>fl (65535 * fl (fl (x - Min (set cs))
                                                         / fl (Max (set cs) - Min (set cs))))\<rfloor>) cs \<and>
                  (\<forall>y \<in> set out. y \<le> 65535) \<and> 0 \<in> set out \<and> 65535 \<in> set out"
    if d: "fl (Max (set cs) - Min (set cs)) \<noteq> 0"
    using normalize_output_values [OF assms ne d] normalize_output_range [OF assms ne d out'] out'
    by simp
  show "\<exists>cfg results cs.
               startup stoi stod read_double indeterminate programOptions f = Inr cfg \<and>
               parallel (func cfg api noisysequence) (cfg_num_images cfg) = Inr results \<and>
               cs = concat (map clean_frame results) \<and> cs \<noteq> [] \<and>
               out = map (\<lambda>q. to_ushort (ieee_round fl (ieee_scale 65535 q))) (normalized fl cs) \<and>
               (Max (set cs) = Min (set cs) \<longrightarrow>
                  normalized fl cs = replicate (length cs) NaN \<and> out = replicate (length cs) 0) \<and>
               (fl (Max (set cs) - Min (set cs)) \<noteq> 0 \<longrightarrow>
                  out = map (\<lambda>x. nat \<lfloor>fl (65535 * fl (fl (x - Min (set cs))
                                                         / fl (Max (set cs) - Min (set cs))))\<rfloor>) cs \<and>
                  (\<forall>y \<in> set out. y \<le> 65535) \<and> 0 \<in> set out \<and> 65535 \<in> set out)"
    using st par cs_def ne o const fin by blast
qed

text \<open>
  The two-frame run produces \<open>[0, 65535]\<close> from the assembled sequence \<open>[1, 4]\<close>; the
  run on two frames of brightness 3 assembles the constant sequence \<open>[3, 3]\<close>, whose
  normalization is \<open>[NaN, NaN]\<close>, and produces \<open>[0, 0]\<close>. The rounding is the identity.
\<close>

theorem output_always_normalized_witness:
  "rounding (\<lambda>x. x) \<and>
   main (\<lambda>x. x) stoi_dec stod_dec (\<lambda>s. 1 / 1000) (Finite 0) example_options example_tiff example_api
     [[2], [4]] = Inr [0, 65535] \<and>
   main (\<lambda>x. x) stoi_dec stod_dec (\<lambda>s. 1 / 1000) (Finite 0) example_options example_tiff constant_api
     [[3], [3]] = Inr [0, 0] \<and>
   normalized (\<lambda>x. x) [3, 3] = [NaN, NaN]"
proof -
  have n: "cfg_num_images example_config = 2" by (simp add: example_config_def)
  note t = output_always_normalized [OF rounding_id, of stoi_dec stod_dec "\<lambda>s. 1 / 1000" "Finite 0"
      example_options example_tiff]
  have a: "main (\<lambda>x. x) stoi_dec stod_dec (\<lambda>s. 1 / 1000) (Finite 0) example_options example_tiff
             example_api [[2], [4]] = Inr [0, 65535]"
  proof -
    from t [of example_api "[[2], [4]]"] example_startup example_parallel obtain out where
      m: "main (\<lambda>x. x) stoi_dec stod_dec (\<lambda>s. 1 / 1000) (Finite 0) example_options example_tiff
             example_api [[2], [4]] = Inr out"
      by (auto simp: n)
    with t [of example_api "[[2], [4]]"] obtain cfg results cs where
      st: "startup stoi_dec stod_dec (\<lambda>s. 1 / 1000) (Finite 0) example_options example_tiff = Inr cfg"
      and par: "parallel (func cfg example_api [[2], [4]]) (cfg_num_images cfg) = Inr results"
      and cs: "cs = concat (map clean_frame results)"
      and fin: "Max (set cs) - Min (set cs) \<noteq> 0 \<longrightarrow>
                  out = map (\<lambda>x. nat \<lfloor>65535 * ((x - Min (set cs)) / (Max (set cs) - Min (set cs)))\<rfloor>) cs"
      by blast
    from st have "cfg = example_config" by (simp add: example_startup)
    with par have "results = [\<lparr> optimize_args = Some (1 / 10 ^ 7, Finite 1, Finite 1, 1000),
            reconstruct_arg = Finite (1 / 2), clean_frame = [1] \<rparr>,
          \<lparr> optimize_args = Some (1 / 10 ^ 7, Finite 0, Finite 1, 1000),
            reconstruct_arg = Finite 0, clean_frame = [4] \<rparr>]"
      by (simp add: n example_parallel)
    with cs have "cs = [1, 4]" by simp
    with fin have "out = [0, 65535]" by simp
    with m show ?thesis by simp
  qed
  have b: "main (\<lambda>x. x) stoi_dec stod_dec (\<lambda>s. 1 / 1000) (Finite 0) example_options example_tiff
             constant_api [[3], [3]] = Inr [0, 0] \<and> normalized (\<lambda>x. x) [3, 3] = [NaN, NaN]"
  proof -
    from t [of constant_api "[[3], [3]]"] example_startup constant_parallel obtain out where
      m: "main (\<lambda>x. x) stoi_dec stod_dec (\<lambda>s. 1 / 1000) (Finite 0) example_options example_tiff
             constant_api [[3], [3]] = Inr out"
      by (auto simp: n)
    with t [of constant_api "[[3], [3]]"] obtain cfg results cs where
      st: "startup stoi_dec stod_dec (\<lambda>s. 1 / 1000) (Finite 0) example_options example_tiff = Inr cfg"
      and par: "parallel (func cfg constant_api [[3], [3]]) (cfg_num_images cfg) = Inr results"
      and cs: "cs = concat (map clean_frame results)"
      and const: "Max (set cs) = Min (set cs) \<longrightarrow>
                  normalized (\<lambda>x. x) cs = replicate (length cs) NaN \<and> out = replicate (length cs) 0"
      by blast
    from st have "cfg = example_config" by (simp add: example_startup)
    with par have "results = [\<lparr> optimize_args = Some (1 / 10 ^ 7, Finite 1, Finite 1, 1000),
            reconstruct_arg = Finite 1, clean_frame = [3] \<rparr>,
          \<lparr> optimize_args = Some (1 / 10 ^ 7, Finite 0, Finite 1, 1000),
            reconstruct_arg = Finite 0, clean_frame = [3] \<rparr>]"
      by (simp add: n constant_parallel)
    with cs have "cs = [3, 3]" by simp
    with const have "normalized (\<lambda>x. x) [3, 3] = [NaN, NaN] \<and> out = [0, 0]"
      by (simp add: numeral_2_eq_2)
    with m show ?thesis by simp
  qed
  show ?thesis using rounding_id a b by simp
qed

subsection \<open>The SVT engine: thresholding and norms\<close>

lemma vec_max_Max: "0 < n \<Longrightarrow> vec_max n v = Max (v ` {..<n})"
proof -
  assume n: "0 < n"
  then have ne: "map v [0 ..< n] \<noteq> []" by simp
  have "set (map v [0 ..< n]) = v ` {..<n}" by (simp add: lessThan_atLeast0)
  then show ?thesis unfolding vec_max_def using arma_max_Max [OF ne] by simp
qed

lemma vec_max_ge: "i < n \<Longrightarrow> v i \<le> vec_max n v"
proof -
  assume i: "i < n"
  then have "0 < n" by simp
  from vec_max_Max [OF this] show ?thesis using i by simp
qed

lemma vec_max_nonneg: "0 < n \<Longrightarrow> \<forall>i<n. 0 \<le> v i \<Longrightarrow> 0 \<le> vec_max n v"
  using vec_max_ge [of 0 n v] by fastforce

lemma wvec_eq:
  assumes "0 < n" "\<forall>i<n. 0 \<le> Sblock i"
  shows "wvec n Sblock lambda i = vec_max n Sblock * exp (- 0.5 * lambda * (Sblock i)\<^sup>2)"
proof -
  have "0 \<le> vec_max n Sblock * exp (- 0.5 * lambda * (Sblock i)\<^sup>2)"
    using vec_max_nonneg [OF assms] by simp
  then show ?thesis unfolding wvec_def by (rule abs_of_nonneg)
qed

lemma SoftThreshold_abs: "0 \<le> t \<Longrightarrow> \<bar>SoftThreshold v t i\<bar> = max (\<bar>v i\<bar> - t) 0"
  by (simp add: SoftThreshold_def abs_mult sgn_if)

lemma SoftThreshold_nonneg: "0 \<le> v i \<Longrightarrow> 0 \<le> SoftThreshold v t i"
  by (simp add: SoftThreshold_def sgn_if)

lemma SoftThreshold_zero: "SoftThreshold v 0 i = v i"
  by (simp add: SoftThreshold_def sgn_if)

lemma SoftThreshold_sq_mono:
  assumes "0 \<le> t1" "t1 \<le> t2"
  shows "(SoftThreshold v t2 i)\<^sup>2 \<le> (SoftThreshold v t1 i)\<^sup>2"
proof -
  have "0 \<le> t2" using assms by simp
  then have "\<bar>SoftThreshold v t2 i\<bar> \<le> \<bar>SoftThreshold v t1 i\<bar>"
    using assms by (simp add: SoftThreshold_abs)
  then show ?thesis by (rule abs_le_square_iff [THEN iffD1])
qed

lemma usv_product_sq:
  "(usv_product n Um Sv Vm p k)\<^sup>2 =
     (\<Sum>a<n. \<Sum>b<n. (Um p a * Um p b) * (Vm k a * Vm k b) * (Sv a * Sv b))"
  unfolding usv_product_def power2_eq_square sum_product
  by (intro sum.cong refl) (simp add: mult_ac)

lemma sum_sum_factor:
  "(\<Sum>p\<in>P. \<Sum>k\<in>K. f p * g k * c) = (\<Sum>p\<in>P. f p) * (\<Sum>k\<in>K. g k) * (c::real)"
proof -
  have "(\<Sum>p\<in>P. f p) * (\<Sum>k\<in>K. g k) = (\<Sum>p\<in>P. \<Sum>k\<in>K. f p * g k)"
    by (rule sum_product)
  then show ?thesis by (simp add: sum_distrib_right)
qed

lemma frobenius_sq_usv:
  assumes U: "orthonormal_columns rows n Um" and V: "orthonormal_columns cols n Vm"
  shows "(\<Sum>p<rows. \<Sum>k<cols. (usv_product n Um Sv Vm p k)\<^sup>2) = (\<Sum>a<n. (Sv a)\<^sup>2)"
proof -
  have "(\<Sum>p<rows. \<Sum>k<cols. (usv_product n Um Sv Vm p k)\<^sup>2)
      = (\<Sum>p<rows. \<Sum>k<cols. \<Sum>a<n. \<Sum>b<n. (Um p a * Um p b) * (Vm k a * Vm k b) * (Sv a * Sv b))"
    by (simp only: usv_product_sq)
  also have "\<dots> = (\<Sum>p<rows. \<Sum>a<n. \<Sum>k<cols. \<Sum>b<n. (Um p a * Um p b) * (Vm k a * Vm k b) * (Sv a * Sv b))"
    by (rule sum.cong [OF refl], rule sum.swap)
  also have "\<dots> = (\<Sum>a<n. \<Sum>p<rows. \<Sum>k<cols. \<Sum>b<n. (Um p a * Um p b) * (Vm k a * Vm k b) * (Sv a * Sv b))"
    by (rule sum.swap)
  also have "\<dots> = (\<Sum>a<n. \<Sum>p<rows. \<Sum>b<n. \<Sum>k<cols. (Um p a * Um p b) * (Vm k a * Vm k b) * (Sv a * Sv b))"
    by (rule sum.cong [OF refl], rule sum.cong [OF refl], rule sum.swap)
  also have "\<dots> = (\<Sum>a<n. \<Sum>b<n. \<Sum>p<rows. \<Sum>k<cols. (Um p a * Um p b) * (Vm k a * Vm k b) * (Sv a * Sv b))"
    by (rule sum.cong [OF refl], rule sum.swap)
  also have "\<dots> = (\<Sum>a<n. \<Sum>b<n. (\<Sum>p<rows. Um p a * Um p b) * (\<Sum>k<cols. Vm k a * Vm k b) * (Sv a * Sv b))"
    by (simp only: sum_sum_factor)
  also have "\<dots> = (\<Sum>a<n. \<Sum>b<n. (if a = b then 1 else 0) * (if a = b then 1 else 0) * (Sv a * Sv b))"
    using U V unfolding orthonormal_columns_def
    by (intro sum.cong [OF refl]) simp
  also have "\<dots> = (\<Sum>a<n. \<Sum>b<n. if a = b then (Sv a)\<^sup>2 else 0)"
    by (intro sum.cong [OF refl]) (simp add: power2_eq_square)
  also have "\<dots> = (\<Sum>a<n. (Sv a)\<^sup>2)"
    by (intro sum.cong [OF refl]) simp
  finally show ?thesis .
qed

lemma frobenius_usv:
  assumes "orthonormal_columns rows n Um" "orthonormal_columns cols n Vm"
  shows "frobenius rows cols (usv_product n Um Sv Vm) = sqrt (\<Sum>a<n. (Sv a)\<^sup>2)"
  unfolding frobenius_def by (simp only: frobenius_sq_usv [OF assms])

subsection \<open>The SVT engine: the accumulation loops\<close>

lemma accumulate_patch_effect:
  "accumulate_patch s it blk ks (v, w) = Inr (v', w') \<Longrightarrow> distinct ks \<Longrightarrow>
   w' r c k = w r c k + (if k \<in> set ks \<and> covers s it k r c then 1 else 0) \<and>
   v' r c k = v r c k + (if k \<in> set ks \<and> covers s it k r c then patch_value s it blk k r c else 0)"
proof (induction ks arbitrary: v w)
  case Nil
  then show ?case by simp
next
  case (Cons a ks)
  from Cons.prems(1) obtain newY newX where
    p: "svt_patches s (svt_actualPatches s ! it) a = Some (newY, newX)"
    and rest: "accumulate_patch s it blk ks
               (add_block v (svt_blockSize s) newY newX a (reshape_col blk a (svt_blockSize s)),
                add_block w (svt_blockSize s) newY newX a (\<lambda>r c. 1)) = Inr (v', w')"
    by (auto split: option.splits if_splits)
  from Cons.prems(2) have d: "distinct ks" and na: "a \<notin> set ks" by simp_all
  from Cons.IH [OF rest d]
  show ?case using na p
    by (auto simp: add_block_def covers_def patch_at_def patch_value_def)
qed

lemma accumulate_patch_step:
  "accumulate_patch s it blk (a # ks) vw = Inr vw' \<Longrightarrow>
   located s (svt_actualPatches s ! it) a \<and> (\<exists>vw1. accumulate_patch s it blk ks vw1 = Inr vw')"
  by (auto simp: located_def split: option.splits if_splits prod.splits)

lemma accumulate_patch_located:
  "accumulate_patch s it blk ks vw = Inr vw' \<Longrightarrow> k \<in> set ks \<Longrightarrow>
   located s (svt_actualPatches s ! it) k"
proof (induction ks arbitrary: vw)
  case Nil
  then show ?case by simp
next
  case (Cons a ks)
  from accumulate_patch_step [OF Cons.prems(1)] obtain vw1 where
    la: "located s (svt_actualPatches s ! it) a" and rest: "accumulate_patch s it blk ks vw1 = Inr vw'"
    by blast
  show ?case
  proof (cases "k = a")
    case True
    then show ?thesis using la by simp
  next
    case False
    with Cons.prems(2) have "k \<in> set ks" by simp
    from Cons.IH [OF rest this] show ?thesis .
  qed
qed

lemma accumulate_patch_succeeds:
  "\<forall>k \<in> set ks. located s (svt_actualPatches s ! it) k \<Longrightarrow>
   \<exists>vw'. accumulate_patch s it blk ks vw = Inr vw'"
proof (induction ks arbitrary: vw)
  case Nil
  then show ?case by simp
next
  case (Cons a ks)
  from Cons.prems have la: "located s (svt_actualPatches s ! it) a"
    and lr: "\<forall>k \<in> set ks. located s (svt_actualPatches s ! it) k" by simp_all
  from la obtain newY newX where
    p: "svt_patches s (svt_actualPatches s ! it) a = Some (newY, newX)"
    and ok: "span_ok (svt_Nx s) (svt_blockSize s) newY" "span_ok (svt_Ny s) (svt_blockSize s) newX"
    by (auto simp: located_def split: option.splits)
  from Cons.IH [OF lr] show ?case using p ok by simp
qed

lemma accumulate_effect:
  "accumulate s lam its (v, w) = Inr (v', w') \<Longrightarrow>
   w' r c k = w r c k + (\<Sum>it\<leftarrow>its. if k < svt_Nt s \<and> covers s it k r c then 1 else 0) \<and>
   v' r c k = v r c k + (\<Sum>it\<leftarrow>its. if k < svt_Nt s \<and> covers s it k r c
                                   then patch_value s it (reconstructed_block s lam it) k r c else 0)"
proof (induction its arbitrary: v w)
  case Nil
  then show ?case by simp
next
  case (Cons it its)
  from Cons.prems obtain v1 w1 where
    one: "accumulate_patch s it (reconstructed_block s lam it) [0 ..< svt_Nt s] (v, w) = Inr (v1, w1)"
    and rest: "accumulate s lam its (v1, w1) = Inr (v', w')"
    by (auto simp: bind_err_Inr_iff)
  from accumulate_patch_effect [OF one, of r c k] Cons.IH [OF rest]
  show ?case by simp
qed

lemma accumulate_located:
  "accumulate s lam its vw = Inr vw' \<Longrightarrow> it \<in> set its \<Longrightarrow> k < svt_Nt s \<Longrightarrow>
   located s (svt_actualPatches s ! it) k"
proof (induction its arbitrary: vw)
  case Nil
  then show ?case by simp
next
  case (Cons a its)
  from Cons.prems(1) obtain vw1 where
    one: "accumulate_patch s a (reconstructed_block s lam a) [0 ..< svt_Nt s] vw = Inr vw1"
    and rest: "accumulate s lam its vw1 = Inr vw'"
    by (auto simp: bind_err_Inr_iff)
  show ?case
  proof (cases "it = a")
    case True
    with accumulate_patch_located [OF one, of k] Cons.prems(3) show ?thesis by simp
  next
    case False
    with Cons.prems(2) have "it \<in> set its" by simp
    from Cons.IH [OF rest this Cons.prems(3)] show ?thesis .
  qed
qed

lemma accumulate_succeeds:
  "\<forall>it \<in> set its. \<forall>k < svt_Nt s. located s (svt_actualPatches s ! it) k \<Longrightarrow>
   \<exists>vw'. accumulate s lam its vw = Inr vw'"
proof (induction its arbitrary: vw)
  case Nil
  then show ?case by simp
next
  case (Cons a its)
  have "\<forall>k \<in> set [0 ..< svt_Nt s]. located s (svt_actualPatches s ! a) k"
    using Cons.prems by simp
  from accumulate_patch_succeeds [OF this]
  obtain vw1 where one: "accumulate_patch s a (reconstructed_block s lam a) [0 ..< svt_Nt s] vw = Inr vw1"
    by blast
  from Cons.IH [of vw1] Cons.prems obtain vw' where "accumulate s lam its vw1 = Inr vw'"
    by auto
  with one show ?case by (simp add: bind_err_def)
qed

lemma weight_at_least_one:
  assumes "accumulators s lam = Inr (v, w)" "it < svt_newVecSize s" "k < svt_Nt s" "covers s it k r c"
  shows "1 \<le> w r c k"
proof -
  let ?f = "\<lambda>it. if k < svt_Nt s \<and> covers s it k r c then 1 else (0::real)"
  from assms(1) accumulate_effect [of s lam "[0 ..< svt_newVecSize s]" "\<lambda>r c k. 0" "\<lambda>r c k. 0" v w r c k]
  have w: "w r c k = (\<Sum>it\<leftarrow>[0 ..< svt_newVecSize s]. ?f it)"
    by (simp add: accumulators_def)
  have "it \<in> set [0 ..< svt_newVecSize s]" using assms(2) by simp
  then have "?f it \<le> (\<Sum>it\<leftarrow>[0 ..< svt_newVecSize s]. ?f it)"
    by (intro member_le_sum_list) auto
  then show ?thesis using w assms(3,4) by simp
qed

lemma weight_zero:
  assumes "accumulators s lam = Inr (v, w)" "\<forall>it < svt_newVecSize s. \<not> covers s it k r c"
  shows "w r c k = 0"
proof -
  from assms(1) accumulate_effect [of s lam "[0 ..< svt_newVecSize s]" "\<lambda>r c k. 0" "\<lambda>r c k. 0" v w r c k]
  have w: "w r c k = (\<Sum>it\<leftarrow>[0 ..< svt_newVecSize s]. if k < svt_Nt s \<and> covers s it k r c then 1 else 0)"
    by (simp add: accumulators_def)
  also have "\<dots> = (\<Sum>it\<leftarrow>[0 ..< svt_newVecSize s]. 0)"
    using assms(2) by (intro arg_cong [where f = sum_list] map_cong refl) simp
  finally show ?thesis by simp
qed

subsection \<open>The SVT engine: what Decompose stores\<close>

lemma extract_block_effect:
  "extract_block s u idx ks b = Inr b' \<Longrightarrow> distinct ks \<Longrightarrow>
   (\<forall>k \<in> set ks. located s idx k) \<and>
   (\<forall>p k. b' p k = (if k \<in> set ks
                     then (case svt_patches s idx k of
                             None \<Rightarrow> 0
                           | Some (newY, newX) \<Rightarrow> vectorise_patch u (svt_blockSize s) newY newX k p)
                     else b p k))"
proof (induction ks arbitrary: b)
  case Nil
  then show ?case by simp
next
  case (Cons a ks)
  from Cons.prems(1) obtain newY newX where
    p: "svt_patches s idx a = Some (newY, newX)"
    and ok: "span_ok (svt_Nx s) (svt_blockSize s) newY" "span_ok (svt_Ny s) (svt_blockSize s) newX"
    and rest: "extract_block s u idx ks
                 (set_col b a (vectorise_patch u (svt_blockSize s) newY newX a)) = Inr b'"
    by (auto split: option.splits if_splits)
  from Cons.prems(2) have d: "distinct ks" and na: "a \<notin> set ks" by simp_all
  have la: "located s idx a" using p ok by (simp add: located_def)
  from Cons.IH [OF rest d] show ?case using na p la
    by (auto simp: set_col_def)
qed

lemma extract_block_succeeds:
  "\<forall>k \<in> set ks. located s idx k \<Longrightarrow> \<exists>b'. extract_block s u idx ks b = Inr b'"
proof (induction ks arbitrary: b)
  case Nil
  then show ?case by simp
next
  case (Cons a ks)
  from Cons.prems have la: "located s idx a" and lr: "\<forall>k \<in> set ks. located s idx k" by simp_all
  from la obtain newY newX where
    p: "svt_patches s idx a = Some (newY, newX)"
    and ok: "span_ok (svt_Nx s) (svt_blockSize s) newY" "span_ok (svt_Ny s) (svt_blockSize s) newX"
    by (auto simp: located_def split: option.splits)
  from Cons.IH [OF lr] show ?case using p ok by simp
qed

lemma decompose_loop_effect:
  "decompose_loop svd s u idxs = Inr usv \<Longrightarrow>
   length usv = length idxs \<and>
   (\<forall>j<length idxs. \<exists>b. extract_block s u (idxs ! j) [0 ..< svt_Nt s] (\<lambda>p k. 0) = Inr b \<and>
                          usv ! j = svd b)"
proof (induction idxs arbitrary: usv)
  case Nil
  then show ?case by simp
next
  case (Cons idx rest)
  from Cons.prems obtain b usv' where
    b: "extract_block s u idx [0 ..< svt_Nt s] (\<lambda>p k. 0) = Inr b"
    and r: "decompose_loop svd s u rest = Inr usv'"
    and u: "usv = svd b # usv'"
    by (auto simp: bind_err_Inr_iff)
  from Cons.IH [OF r] have len: "length usv' = length rest"
    and nth: "\<forall>j<length rest. \<exists>b. extract_block s u (rest ! j) [0 ..< svt_Nt s] (\<lambda>p k. 0) = Inr b \<and>
                          usv' ! j = svd b"
    by simp_all
  show ?case
  proof (intro conjI allI impI)
    show "length usv = length (idx # rest)" using len u by simp
  next
    fix j assume j: "j < length (idx # rest)"
    show "\<exists>b. extract_block s u ((idx # rest) ! j) [0 ..< svt_Nt s] (\<lambda>p k. 0) = Inr b \<and> usv ! j = svd b"
    proof (cases j)
      case 0
      then show ?thesis using b u by simp
    next
      case (Suc j')
      then show ?thesis using nth j u by simp
    qed
  qed
qed

lemma decompose_loop_succeeds:
  "\<forall>idx \<in> set idxs. \<forall>k < svt_Nt s. located s idx k \<Longrightarrow> \<exists>usv. decompose_loop svd s u idxs = Inr usv"
proof (induction idxs)
  case Nil
  then show ?case by simp
next
  case (Cons idx rest)
  have "\<forall>k \<in> set [0 ..< svt_Nt s]. located s idx k" using Cons.prems by simp
  from extract_block_succeeds [OF this]
  obtain b where b: "extract_block s u idx [0 ..< svt_Nt s] (\<lambda>p k. 0) = Inr b" by blast
  from Cons.IH Cons.prems obtain usv where "decompose_loop svd s u rest = Inr usv" by auto
  with b show ?case by (simp add: bind_err_def)
qed

lemma Decompose_effect:
  assumes "Decompose svd s u = Inr s'"
  shows "\<exists>joined usv. joinPatches s = Inr joined \<and>
           decompose_loop svd s u (sort (remdups joined)) = Inr usv \<and>
           s' = s\<lparr> svt_actualPatches := sort (remdups joined),
                   svt_newVecSize := length (sort (remdups joined)),
                   svt_U := map fst usv,
                   svt_S := map (\<lambda>t. fst (snd t)) usv,
                   svt_V := map (\<lambda>t. snd (snd t)) usv \<rparr>"
  using assms by (auto simp: Decompose_def bind_err_Inr_iff Let_def)

lemma Decompose_succeeds:
  assumes "joinPatches s = Inr joined"
    and "\<forall>idx \<in> set joined. \<forall>k < svt_Nt s. located s idx k"
  shows "\<exists>s'. Decompose svd s u = Inr s'"
proof -
  have "\<forall>idx \<in> set (sort (remdups joined)). \<forall>k < svt_Nt s. located s idx k"
    using assms(2) by simp
  from decompose_loop_succeeds [OF this]
  obtain usv where "decompose_loop svd s u (sort (remdups joined)) = Inr usv" by blast
  then show ?thesis using assms(1) by (simp add: Decompose_def bind_err_def Let_def)
qed

text \<open>What a successful Decompose leaves in the object.\<close>

lemma Decompose_fields:
  assumes "Decompose svd s u = Inr s'"
  shows "svt_patches s' = svt_patches s" "svt_Nx s' = svt_Nx s" "svt_Ny s' = svt_Ny s"
    "svt_Nt s' = svt_Nt s" "svt_blockSize s' = svt_blockSize s"
    "svt_expWeighting s' = svt_expWeighting s"
    "svt_newVecSize s' = length (svt_actualPatches s')"
    "\<exists>joined. joinPatches s = Inr joined \<and> set (svt_actualPatches s') = set joined"
  using Decompose_effect [OF assms] by auto

lemma Decompose_patch:
  assumes "Decompose svd s u = Inr s'" "it < svt_newVecSize s'"
  shows "\<exists>b. extract_block s u (svt_actualPatches s' ! it) [0 ..< svt_Nt s] (\<lambda>p k. 0) = Inr b \<and>
             (svt_U s' ! it, svt_S s' ! it, svt_V s' ! it) = svd b"
proof -
  from Decompose_effect [OF assms(1)] obtain joined usv where
    j: "joinPatches s = Inr joined"
    and l: "decompose_loop svd s u (sort (remdups joined)) = Inr usv"
    and s': "s' = s\<lparr> svt_actualPatches := sort (remdups joined),
                   svt_newVecSize := length (sort (remdups joined)),
                   svt_U := map fst usv,
                   svt_S := map (\<lambda>t. fst (snd t)) usv,
                   svt_V := map (\<lambda>t. snd (snd t)) usv \<rparr>"
    by blast
  from decompose_loop_effect [OF l] have len: "length usv = length (sort (remdups joined))"
    and nth: "\<forall>j<length (sort (remdups joined)).
                \<exists>b. extract_block s u (sort (remdups joined) ! j) [0 ..< svt_Nt s] (\<lambda>p k. 0) = Inr b \<and>
                    usv ! j = svd b"
    by simp_all
  have it: "it < length (sort (remdups joined))" using assms(2) s' by simp
  with nth obtain b where
    b: "extract_block s u (sort (remdups joined) ! it) [0 ..< svt_Nt s] (\<lambda>p k. 0) = Inr b"
    and u: "usv ! it = svd b" by blast
  have "(svt_U s' ! it, svt_S s' ! it, svt_V s' ! it) = usv ! it"
    using it len s' by simp
  then show ?thesis using b u s' by simp
qed

subsection \<open>The SVT engine: reconstruction without shrinkage\<close>

lemma block_index:
  assumes "ry < bs" "cx < (bs::nat)"
  shows "ry + cx * bs < bs * bs" "(ry + cx * bs) mod bs = ry" "(ry + cx * bs) div bs = cx"
proof -
  have "cx + 1 \<le> bs" using assms by simp
  then have "(cx + 1) * bs \<le> bs * bs" by (rule mult_le_mono1)
  then show "ry + cx * bs < bs * bs" using assms by simp
  show "(ry + cx * bs) mod bs = ry" using assms by simp
  show "(ry + cx * bs) div bs = cx" using assms by simp
qed

lemma SoftThreshold_zero_fun: "SoftThreshold v 0 = v"
  by (rule ext) (rule SoftThreshold_zero)

lemma Sthresh_scalar_zero:
  "\<not> svt_expWeighting s \<Longrightarrow> Sthresh s 0 it = svt_S s ! it"
  by (simp add: Sthresh_def Let_def SoftThreshold_zero_fun)

lemma covered_value:
  assumes D: "Decompose svd s u = Inr s'"
    and nonexp: "\<not> svt_expWeighting s"
    and exact: "\<forall>block. svd_exact (svt_blockSize s * svt_blockSize s) (svt_Nt s) svd block"
    and it: "it < svt_newVecSize s'" and k: "k < svt_Nt s"
    and cov: "covers s' it k r c"
  shows "patch_value s' it (reconstructed_block s' 0 it) k r c = u r c k"
proof -
  note f = Decompose_fields [OF D]
  let ?idx = "svt_actualPatches s' ! it"
  let ?bs = "svt_blockSize s"
  from Decompose_patch [OF D it] obtain b where
    b: "extract_block s u ?idx [0 ..< svt_Nt s] (\<lambda>p k. 0) = Inr b"
    and usv: "(svt_U s' ! it, svt_S s' ! it, svt_V s' ! it) = svd b" by blast
  from extract_block_effect [OF b] k have loc: "located s ?idx k"
    and bval: "\<And>p. b p k = (case svt_patches s ?idx k of
                             None \<Rightarrow> 0
                           | Some (newY, newX) \<Rightarrow> vectorise_patch u ?bs newY newX k p)"
    by simp_all
  from cov obtain y x where p: "svt_patches s ?idx k = Some (y, x)" and ib: "in_block ?bs y x r c"
    by (auto simp: covers_def patch_at_def f split: option.splits)
  from loc p have y0: "0 \<le> y" and x0: "0 \<le> x"
    by (simp_all add: located_def span_ok_def)
  define ry where "ry = nat (int r - y)"
  define cx where "cx = nat (int c - x)"
  from ib y0 x0 have ry: "ry < ?bs" "nat y + ry = r" and cx: "cx < ?bs" "nat x + cx = c"
    by (auto simp: in_block_def ry_def cx_def)
  note bi = block_index [OF ry(1) cx(1)]
  have ex: "usv_product (svt_Nt s) (svt_U s' ! it) (svt_S s' ! it) (svt_V s' ! it) (ry + cx * ?bs) k
            = b (ry + cx * ?bs) k"
    using exact [rule_format, of b] usv [symmetric] bi(1) k by (simp add: svd_exact_def)
  have "patch_value s' it (reconstructed_block s' 0 it) k r c
        = reconstructed_block s' 0 it (ry + cx * ?bs) k"
    using p by (simp add: patch_value_def patch_at_def f reshape_col_def ry_def cx_def)
  also have "\<dots> = usv_product (svt_Nt s) (svt_U s' ! it) (svt_S s' ! it) (svt_V s' ! it) (ry + cx * ?bs) k"
    using nonexp by (simp add: reconstructed_block_def f Sthresh_scalar_zero)
  also have "\<dots> = b (ry + cx * ?bs) k" by (rule ex)
  also have "\<dots> = u (nat y + ry) (nat x + cx) k"
    using bval [of "ry + cx * ?bs"] p bi by (simp add: vectorise_patch_def)
  finally show ?thesis using ry(2) cx(2) by simp
qed

lemma sum_list_if_const:
  "(\<Sum>x\<leftarrow>xs. if P x then (a::real) else 0) = a * (\<Sum>x\<leftarrow>xs. if P x then 1 else 0)"
  by (induction xs) (simp_all add: algebra_simps)

lemma Decompose_located:
  assumes D: "Decompose svd s u = Inr s'" and it: "it < svt_newVecSize s'" and k: "k < svt_Nt s'"
  shows "located s' (svt_actualPatches s' ! it) k"
proof -
  note f = Decompose_fields [OF D]
  from Decompose_patch [OF D it] obtain b where
    b: "extract_block s u (svt_actualPatches s' ! it) [0 ..< svt_Nt s] (\<lambda>p k. 0) = Inr b" by blast
  from extract_block_effect [OF b] k f have "located s (svt_actualPatches s' ! it) k" by simp
  then show ?thesis by (auto simp: located_def f split: option.splits)
qed

lemma Decompose_then_accumulators:
  assumes D: "Decompose svd s u = Inr s'"
  shows "\<exists>v w. accumulators s' lam = Inr (v, w)"
proof -
  have "\<forall>it \<in> set [0 ..< svt_newVecSize s']. \<forall>k < svt_Nt s'. located s' (svt_actualPatches s' ! it) k"
    using Decompose_located [OF D] by simp
  from accumulate_succeeds [OF this] show ?thesis
    unfolding accumulators_def by (metis surj_pair)
qed

lemma reconstruct_zero_lambda:
  assumes D: "Decompose svd s u = Inr s'"
    and nonexp: "\<not> svt_expWeighting s"
    and exact: "\<forall>block. svd_exact (svt_blockSize s * svt_blockSize s) (svt_Nt s) svd block"
  shows "\<exists>v. Reconstruct s' 0 = Inr v \<and>
           (\<forall>r c k. k < svt_Nt s \<longrightarrow> (\<exists>it < svt_newVecSize s'. covers s' it k r c) \<longrightarrow>
                     v r c k = u r c k)"
proof -
  note f = Decompose_fields [OF D]
  from Decompose_then_accumulators [OF D] obtain v w where acc: "accumulators s' 0 = Inr (v, w)"
    by blast
  let ?res = "\<lambda>r c k. if w r c k = 0 then 0 else v r c k / w r c k"
  have R: "Reconstruct s' 0 = Inr ?res" using acc by (simp add: Reconstruct_def bind_err_def)
  have "?res r c k = u r c k" if k: "k < svt_Nt s" and ex: "\<exists>it < svt_newVecSize s'. covers s' it k r c"
    for r c k
  proof -
    let ?its = "[0 ..< svt_newVecSize s']"
    let ?P = "\<lambda>it. k < svt_Nt s' \<and> covers s' it k r c"
    from acc accumulate_effect [of s' 0 ?its "\<lambda>r c k. 0" "\<lambda>r c k. 0" v w r c k]
    have w: "w r c k = (\<Sum>it\<leftarrow>?its. if ?P it then 1 else 0)"
      and v: "v r c k = (\<Sum>it\<leftarrow>?its. if ?P it
                          then patch_value s' it (reconstructed_block s' 0 it) k r c else 0)"
      by (simp_all add: accumulators_def)
    have "(\<Sum>it\<leftarrow>?its. if ?P it then patch_value s' it (reconstructed_block s' 0 it) k r c else 0)
          = (\<Sum>it\<leftarrow>?its. if ?P it then u r c k else 0)"
    proof (rule arg_cong [where f = sum_list], rule map_cong [OF refl])
      fix it assume "it \<in> set ?its"
      then have it: "it < svt_newVecSize s'" by simp
      show "(if ?P it then patch_value s' it (reconstructed_block s' 0 it) k r c else 0)
            = (if ?P it then u r c k else 0)"
        using covered_value [OF D nonexp exact it k] by simp
    qed
    then have vu: "v r c k = u r c k * w r c k"
      using v w sum_list_if_const [of ?P "u r c k" ?its] by simp
    from ex obtain it where "it < svt_newVecSize s'" "covers s' it k r c" by blast
    from weight_at_least_one [OF acc this(1) _ this(2)] k f have "1 \<le> w r c k" by simp
    then show ?thesis using vu by simp
  qed
  with R show ?thesis by blast
qed

subsection \<open>The SVT engine: the one-pixel example\<close>

declare strided.simps [simp del]

lemma strided_stop: "\<not> i < bound \<Longrightarrow> strided i bound step = []"
  by (simp add: strided.simps)

lemma strided_step: "i < bound \<Longrightarrow> 0 < step \<Longrightarrow> strided i bound step = i # strided (i + step) bound step"
  by (subst strided.simps) simp

lemma one_pixel_SVT: "SVT (still_patches 0 0) 1 1 1 1 1 ew = Inr (one_pixel_svt ew)"
  by (simp add: SVT_def u32_def one_pixel_svt_def)

lemma one_pixel_join: "joinPatches (one_pixel_svt ew) = Inr [0, 0, 0]"
  by (simp add: joinPatches_def firstPatches_def patchesRightEdge_def patchesBottomEdge_def
      one_pixel_svt_def u32_def strided_step strided_stop)

lemma one_pixel_Decompose:
  "Decompose svd_1x1 (one_pixel_svt ew) flat_window = Inr (one_pixel_decomposed ew)"
  by (simp add: Decompose_def one_pixel_join bind_err_def Let_def)
     (simp add: one_pixel_svt_def one_pixel_decomposed_def still_patches_def grid_origin_def
       span_ok_def bind_err_def svd_1x1_def set_col_def vectorise_patch_def flat_window_def)

lemma one_pixel_accumulators:
  "accumulators (one_pixel_decomposed ew) lam = Inr (v, w) \<Longrightarrow> w 0 0 0 = 1"
  by (auto simp: accumulators_def one_pixel_svt_def one_pixel_decomposed_def still_patches_def grid_origin_def
       span_ok_def bind_err_def add_block_def in_block_def)

lemma one_pixel_Reconstruct_exp:
  "\<exists>v. Reconstruct (one_pixel_decomposed True) 0 = Inr v \<and> v 0 0 0 = 0"
  by (simp add: Reconstruct_def accumulators_def one_pixel_svt_def one_pixel_decomposed_def still_patches_def grid_origin_def
       span_ok_def bind_err_def add_block_def in_block_def reconstructed_block_def usv_product_def
       Sthresh_def SoftThreshold_vec_def wvec_def vec_max_def arma_max_def reshape_col_def)

lemma svd_1x1_exact: "svd_exact 1 1 svd_1x1 block"
  by (simp add: svd_exact_def svd_1x1_def usv_product_def sgn_if)

lemma one_pixel_covers: "covers (one_pixel_decomposed ew) 0 0 0 0"
  by (simp add: covers_def patch_at_def one_pixel_decomposed_def one_pixel_svt_def still_patches_def
      grid_origin_def in_block_def)

lemma Sthresh_scalar: "\<not> svt_expWeighting s \<Longrightarrow> Sthresh s lam it = SoftThreshold (svt_S s ! it) lam"
  by (simp add: Sthresh_def Let_def)

subsection \<open>Exponential weighting\<close>

lemma Sthresh_exponential:
  assumes "svt_expWeighting s" and "0 < svt_Nt s" and "\<forall>i < svt_Nt s. 0 \<le> (svt_S s ! it) i"
  shows "Sthresh s lambda it =
           SoftThreshold_vec (svt_S s ! it)
             (\<lambda>i. vec_max (svt_Nt s) (svt_S s ! it) * exp (- 0.5 * lambda * ((svt_S s ! it) i)\<^sup>2))"
proof -
  let ?S = "svt_S s ! it"
  have w: "wvec (svt_Nt s) ?S lambda = (\<lambda>i. vec_max (svt_Nt s) ?S * exp (- 0.5 * lambda * (?S i)\<^sup>2))"
    by (rule ext) (rule wvec_eq [OF assms(2,3)])
  show ?thesis using assms(1) by (simp add: Sthresh_def Let_def w)
qed

lemma Sthresh_exponential_zero:
  assumes "svt_expWeighting s" and "0 < svt_Nt s" and "\<forall>i < svt_Nt s. 0 \<le> (svt_S s ! it) i"
    and "i < svt_Nt s"
  shows "Sthresh s 0 it i = 0"
proof -
  let ?S = "svt_S s ! it"
  have "?S i \<le> vec_max (svt_Nt s) ?S" using assms(4) by (rule vec_max_ge)
  moreover have "0 \<le> ?S i" using assms(3,4) by simp
  ultimately show ?thesis
    by (simp add: Sthresh_exponential [OF assms(1,2,3)] SoftThreshold_vec_def)
qed

lemma reconstructed_block_exponential_zero:
  assumes "svt_expWeighting s" and "0 < svt_Nt s" and "\<forall>i < svt_Nt s. 0 \<le> (svt_S s ! it) i"
  shows "reconstructed_block s 0 it = (\<lambda>p k. 0)"
proof (intro ext)
  fix p k
  have "(\<Sum>m<svt_Nt s. (svt_U s ! it) p m * Sthresh s 0 it m * (svt_V s ! it) k m) = (\<Sum>m<svt_Nt s. 0)"
    by (rule sum.cong [OF refl]) (simp add: Sthresh_exponential_zero [OF assms])
  then show "reconstructed_block s 0 it p k = 0"
    by (simp add: reconstructed_block_def usv_product_def)
qed

lemma sum_list_if_filter:
  "(\<Sum>x\<leftarrow>xs. if P x then f x else (0::real)) = (\<Sum>x\<leftarrow>filter P xs. f x)"
  by (induction xs) simp_all

lemma sum_list_if_length:
  "(\<Sum>x\<leftarrow>xs. if P x then 1 else (0::real)) = real (length (filter P xs))"
  by (induction xs) simp_all

lemma Reconstruct_value:
  assumes acc: "accumulators s lam = Inr (va, w)"
  shows "Reconstruct s lam =
           Inr (\<lambda>r c k.
             let its = filter (\<lambda>it. k < svt_Nt s \<and> covers s it k r c) [0 ..< svt_newVecSize s]
             in if its = [] then 0
                else (\<Sum>it\<leftarrow>its. patch_value s it (reconstructed_block s lam it) k r c)
                       / real (length its))"
proof -
  have R: "Reconstruct s lam = Inr (\<lambda>r c k. if w r c k = 0 then 0 else va r c k / w r c k)"
    using acc by (simp add: Reconstruct_def bind_err_def)
  have "(if w r c k = 0 then 0 else va r c k / w r c k) =
          (let its = filter (\<lambda>it. k < svt_Nt s \<and> covers s it k r c) [0 ..< svt_newVecSize s]
           in if its = [] then 0
              else (\<Sum>it\<leftarrow>its. patch_value s it (reconstructed_block s lam it) k r c)
                     / real (length its))" for r c k
  proof -
    let ?its = "[0 ..< svt_newVecSize s]"
    let ?P = "\<lambda>it. k < svt_Nt s \<and> covers s it k r c"
    from acc accumulate_effect [of s lam ?its "\<lambda>r c k. 0" "\<lambda>r c k. 0" va w r c k]
    have w: "w r c k = (\<Sum>it\<leftarrow>?its. if ?P it then 1 else 0)"
      and v: "va r c k = (\<Sum>it\<leftarrow>?its. if ?P it
                          then patch_value s it (reconstructed_block s lam it) k r c else 0)"
      by (simp_all add: accumulators_def)
    have w': "w r c k = real (length (filter ?P ?its))"
      unfolding w by (rule sum_list_if_length)
    have v': "va r c k = (\<Sum>it\<leftarrow>filter ?P ?its. patch_value s it (reconstructed_block s lam it) k r c)"
      unfolding v by (rule sum_list_if_filter)
    show ?thesis unfolding Let_def w' v' by simp
  qed
  then show ?thesis unfolding R by simp
qed

subsection \<open>Claims about thresholding and reconstruction\<close>

text \<open>
  C7. For a decomposed window with exponential weighting on and singular values that are
  non-negative (as a singular value decomposition returns them), \<open>Reconstruct(lambda)\<close>
  returns, at every pixel, the average over the patches covering it of the blocks
  \<open>U * diag(Sthresh) * V\<^sup>T\<close> in which \<open>Sthresh\<close> is the soft-thresholding of the singular
  values \<open>S\<close> of the patch by the per-element thresholds
  \<open>w[i] = max(S) * exp(-0.5 * lambda * S[i]\<^sup>2)\<close> (and 0 where no patch covers the pixel).
  At \<open>lambda = 0\<close> every threshold is \<open>max(S)\<close>, every singular value is shrunk to zero,
  and \<open>Reconstruct(0)\<close> returns the zero cube.
\<close>

theorem exponential_weighting_thresholds:
  assumes D: "Decompose svd s0 u = Inr s"
    and ew: "svt_expWeighting s" and nt: "0 < svt_Nt s"
    and nonneg: "\<forall>it < svt_newVecSize s. \<forall>i < svt_Nt s. 0 \<le> (svt_S s ! it) i"
  shows "Reconstruct s lambda =
           Inr (\<lambda>r c k.
             let its = filter (\<lambda>it. k < svt_Nt s \<and> covers s it k r c) [0 ..< svt_newVecSize s]
             in if its = [] then 0
                else (\<Sum>it\<leftarrow>its.
                        patch_value s it
                          (usv_product (svt_Nt s) (svt_U s ! it)
                             (SoftThreshold_vec (svt_S s ! it)
                                (\<lambda>i. vec_max (svt_Nt s) (svt_S s ! it)
                                       * exp (- 0.5 * lambda * ((svt_S s ! it) i)\<^sup>2)))
                             (svt_V s ! it))
                          k r c)
                       / real (length its)) \<and>
         Reconstruct s 0 = Inr (\<lambda>r c k. 0) \<and>
         (\<forall>it < svt_newVecSize s.
            Sthresh s lambda it =
              SoftThreshold_vec (svt_S s ! it)
                (\<lambda>i. vec_max (svt_Nt s) (svt_S s ! it) * exp (- 0.5 * lambda * ((svt_S s ! it) i)\<^sup>2)) \<and>
            Sthresh s 0 it = SoftThreshold_vec (svt_S s ! it) (\<lambda>i. vec_max (svt_Nt s) (svt_S s ! it)) \<and>
            (\<forall>i < svt_Nt s. Sthresh s 0 it i = 0))"
proof (intro conjI)
  have S: "Sthresh s lam it =
              SoftThreshold_vec (svt_S s ! it)
                (\<lambda>i. vec_max (svt_Nt s) (svt_S s ! it) * exp (- 0.5 * lam * ((svt_S s ! it) i)\<^sup>2))"
    if "it < svt_newVecSize s" for it lam
    using nonneg that by (intro Sthresh_exponential [OF ew nt]) simp
  have blk: "reconstructed_block s lam it =
               usv_product (svt_Nt s) (svt_U s ! it)
                 (SoftThreshold_vec (svt_S s ! it)
                    (\<lambda>i. vec_max (svt_Nt s) (svt_S s ! it) * exp (- 0.5 * lam * ((svt_S s ! it) i)\<^sup>2)))
                 (svt_V s ! it)"
    if "it < svt_newVecSize s" for it lam
    by (simp only: reconstructed_block_def S [OF that])
  have zero: "reconstructed_block s 0 it = (\<lambda>p k. 0)" if "it < svt_newVecSize s" for it
    using nonneg that by (intro reconstructed_block_exponential_zero [OF ew nt]) simp
  have sums: "(\<Sum>it\<leftarrow>filter P [0 ..< svt_newVecSize s]. f it) = (\<Sum>it\<leftarrow>filter P [0 ..< svt_newVecSize s]. g it)"
    if "\<And>it. it < svt_newVecSize s \<Longrightarrow> f it = g it" for P and f g :: "nat \<Rightarrow> real"
    by (rule arg_cong [where f = sum_list], rule map_cong [OF refl]) (simp add: that)
  from Decompose_then_accumulators [OF D] obtain va w where acc: "accumulators s lambda = Inr (va, w)"
    by blast
  show "Reconstruct s lambda =
           Inr (\<lambda>r c k.
             let its = filter (\<lambda>it. k < svt_Nt s \<and> covers s it k r c) [0 ..< svt_newVecSize s]
             in if its = [] then 0
                else (\<Sum>it\<leftarrow>its.
                        patch_value s it
                          (usv_product (svt_Nt s) (svt_U s ! it)
                             (SoftThreshold_vec (svt_S s ! it)
                                (\<lambda>i. vec_max (svt_Nt s) (svt_S s ! it)
                                       * exp (- 0.5 * lambda * ((svt_S s ! it) i)\<^sup>2)))
                             (svt_V s ! it))
                          k r c)
                       / real (length its))"
    unfolding Reconstruct_value [OF acc] Let_def
    by (simp only: sums [OF arg_cong [OF blk, where f = "\<lambda>b. patch_value s _ b _ _ _"]])
  from Decompose_then_accumulators [OF D] obtain va0 w0 where acc0: "accumulators s 0 = Inr (va0, w0)"
    by blast
  have z: "(\<Sum>it\<leftarrow>filter P [0 ..< svt_newVecSize s]. patch_value s it (reconstructed_block s 0 it) k r c) = 0"
    for P k r c
  proof -
    have "(\<Sum>it\<leftarrow>filter P [0 ..< svt_newVecSize s]. patch_value s it (reconstructed_block s 0 it) k r c)
          = (\<Sum>it\<leftarrow>filter P [0 ..< svt_newVecSize s]. 0)"
      by (rule sums) (simp add: zero patch_value_def reshape_col_def split: option.split)
    then show ?thesis by simp
  qed
  show "Reconstruct s 0 = Inr (\<lambda>r c k. 0)"
    unfolding Reconstruct_value [OF acc0] Let_def by (simp add: fun_eq_iff z)
  show "\<forall>it < svt_newVecSize s.
            Sthresh s lambda it =
              SoftThreshold_vec (svt_S s ! it)
                (\<lambda>i. vec_max (svt_Nt s) (svt_S s ! it) * exp (- 0.5 * lambda * ((svt_S s ! it) i)\<^sup>2)) \<and>
            Sthresh s 0 it = SoftThreshold_vec (svt_S s ! it) (\<lambda>i. vec_max (svt_Nt s) (svt_S s ! it)) \<and>
            (\<forall>i < svt_Nt s. Sthresh s 0 it i = 0)"
  proof (intro allI impI conjI)
    fix it assume it: "it < svt_newVecSize s"
    show "Sthresh s lambda it =
              SoftThreshold_vec (svt_S s ! it)
                (\<lambda>i. vec_max (svt_Nt s) (svt_S s ! it) * exp (- 0.5 * lambda * ((svt_S s ! it) i)\<^sup>2))"
      by (rule S [OF it])
    show "Sthresh s 0 it = SoftThreshold_vec (svt_S s ! it) (\<lambda>i. vec_max (svt_Nt s) (svt_S s ! it))"
      using S [OF it, of 0] by simp
    fix i assume "i < svt_Nt s"
    then show "Sthresh s 0 it i = 0"
      using nonneg it by (intro Sthresh_exponential_zero [OF ew nt]) simp_all
  qed
qed

text \<open>
  The one-pixel window with value 3 (one patch, singular value 3) and exponential
  weighting: \<open>Reconstruct(0)\<close> is zero, and \<open>Reconstruct(1)\<close> gives
  \<open>3 - 3 * exp(-9/2)\<close>, the singular value less the threshold \<open>w[0]\<close>.
\<close>

theorem exponential_weighting_thresholds_witness:
  "Decompose svd_1x1 (one_pixel_svt True) flat_window = Inr (one_pixel_decomposed True) \<and>
   svt_expWeighting (one_pixel_decomposed True) \<and>
   (svt_S (one_pixel_decomposed True) ! 0) 0 = 3 \<and>
   Reconstruct (one_pixel_decomposed True) 0 = Inr (\<lambda>r c k. 0) \<and>
   (\<exists>v. Reconstruct (one_pixel_decomposed True) 1 = Inr v \<and> v 0 0 0 = 3 - 3 * exp (- 9 / 2))"
proof -
  have a: "svt_expWeighting (one_pixel_decomposed True)" "0 < svt_Nt (one_pixel_decomposed True)"
    "\<forall>it < svt_newVecSize (one_pixel_decomposed True).
       \<forall>i < svt_Nt (one_pixel_decomposed True). 0 \<le> (svt_S (one_pixel_decomposed True) ! it) i"
    by (simp_all add: one_pixel_decomposed_def one_pixel_svt_def)
  have c: "svt_Nt (one_pixel_decomposed True) = 1" "svt_newVecSize (one_pixel_decomposed True) = 1"
    "svt_blockSize (one_pixel_decomposed True) = 1"
    "svt_S (one_pixel_decomposed True) ! 0 = (\<lambda>m. 3)"
    "svt_U (one_pixel_decomposed True) ! 0 = (\<lambda>p m. 1)"
    "svt_V (one_pixel_decomposed True) ! 0 = (\<lambda>k m. 1)"
    "patch_at (one_pixel_decomposed True) 0 0 = Some (0, 0)"
    by (simp_all add: one_pixel_decomposed_def one_pixel_svt_def patch_at_def still_patches_def
        grid_origin_def)
  have e: "(3 :: real) * exp (- (9 / 2)) \<le> 3" by simp
  note t = exponential_weighting_thresholds [OF one_pixel_Decompose a]
  from t [of 0] have zero: "Reconstruct (one_pixel_decomposed True) 0 = Inr (\<lambda>r c k. 0)" by blast
  from t [of 1] have "\<exists>v. Reconstruct (one_pixel_decomposed True) 1 = Inr v \<and> v 0 0 0 = 3 - 3 * exp (- 9 / 2)"
    using one_pixel_covers [of True] e
    by (simp add: c Let_def patch_value_def reshape_col_def usv_product_def SoftThreshold_vec_def
        vec_max_def arma_max_def power2_eq_square)
  then show ?thesis
    using zero one_pixel_Decompose a(1) c(4) by simp
qed

text \<open>
  C6. In scalar mode, for thresholds \<open>0 \<le> lambda1 \<le> lambda2\<close> and factors \<open>U\<close>, \<open>V\<close>
  with orthonormal columns, the Frobenius norm of the patch reconstructed at \<open>lambda2\<close>
  is at most its norm at \<open>lambda1\<close>; and a non-negative singular value is never
  thresholded to a negative one.
\<close>

theorem scalar_thresholding_monotone:
  assumes "\<not> svt_expWeighting s"
    and "orthonormal_columns (svt_blockSize s * svt_blockSize s) (svt_Nt s) (svt_U s ! it)"
    and "orthonormal_columns (svt_Nt s) (svt_Nt s) (svt_V s ! it)"
    and "0 \<le> lambda1" and "lambda1 \<le> lambda2"
  shows "frobenius (svt_blockSize s * svt_blockSize s) (svt_Nt s) (reconstructed_block s lambda2 it)
           \<le> frobenius (svt_blockSize s * svt_blockSize s) (svt_Nt s) (reconstructed_block s lambda1 it) \<and>
         (\<forall>i. 0 \<le> (svt_S s ! it) i \<longrightarrow> 0 \<le> Sthresh s lambda1 it i \<and> 0 \<le> Sthresh s lambda2 it i)"
proof -
  let ?S = "svt_S s ! it"
  have "(\<Sum>a<svt_Nt s. (SoftThreshold ?S lambda2 a)\<^sup>2) \<le> (\<Sum>a<svt_Nt s. (SoftThreshold ?S lambda1 a)\<^sup>2)"
    by (rule sum_mono) (rule SoftThreshold_sq_mono [OF assms(4,5)])
  then have "sqrt (\<Sum>a<svt_Nt s. (SoftThreshold ?S lambda2 a)\<^sup>2)
             \<le> sqrt (\<Sum>a<svt_Nt s. (SoftThreshold ?S lambda1 a)\<^sup>2)"
    by (rule real_sqrt_le_mono)
  then have "frobenius (svt_blockSize s * svt_blockSize s) (svt_Nt s) (reconstructed_block s lambda2 it)
           \<le> frobenius (svt_blockSize s * svt_blockSize s) (svt_Nt s) (reconstructed_block s lambda1 it)"
    by (simp only: reconstructed_block_def frobenius_usv [OF assms(2,3)] Sthresh_scalar [OF assms(1)])
  then show ?thesis
    using SoftThreshold_nonneg by (simp add: Sthresh_scalar [OF assms(1)])
qed

text \<open>The one-pixel patch with singular value 3, thresholds 1 and 2.\<close>

theorem scalar_thresholding_monotone_witness:
  "frobenius 1 1 (reconstructed_block (one_pixel_decomposed False) 2 0)
     \<le> frobenius 1 1 (reconstructed_block (one_pixel_decomposed False) 1 0) \<and>
   (svt_S (one_pixel_decomposed False) ! 0) 0 = 3 \<and>
   0 \<le> Sthresh (one_pixel_decomposed False) 1 0 0"
proof -
  have a: "\<not> svt_expWeighting (one_pixel_decomposed False)"
    "orthonormal_columns (svt_blockSize (one_pixel_decomposed False) * svt_blockSize (one_pixel_decomposed False))
       (svt_Nt (one_pixel_decomposed False)) (svt_U (one_pixel_decomposed False) ! 0)"
    "orthonormal_columns (svt_Nt (one_pixel_decomposed False)) (svt_Nt (one_pixel_decomposed False))
       (svt_V (one_pixel_decomposed False) ! 0)"
    by (simp_all add: one_pixel_decomposed_def one_pixel_svt_def orthonormal_columns_def)
  have b: "(0::real) \<le> 1" "(1::real) \<le> 2" by simp_all
  have c: "svt_blockSize (one_pixel_decomposed False) = 1" "svt_Nt (one_pixel_decomposed False) = 1"
    "(svt_S (one_pixel_decomposed False) ! 0) 0 = 3"
    by (simp_all add: one_pixel_decomposed_def one_pixel_svt_def)
  from scalar_thresholding_monotone [OF a b] show ?thesis
    by (simp add: c)
qed

text \<open>
  C2, counterexample. One frame of one pixel with value 3, decomposed with an exact
  singular value decomposition, exponential weighting on: \<open>Reconstruct(0)\<close> returns 0 at
  the pixel, not 3.
\<close>

theorem zero_lambda_exponential_counterexample:
  "(\<forall>block. svd_exact 1 1 svd_1x1 block) \<and>
   (\<exists>s v. SVT (still_patches 0 0) 1 1 1 1 1 True = Inr (one_pixel_svt True) \<and>
          Decompose svd_1x1 (one_pixel_svt True) flat_window = Inr s \<and>
          Reconstruct s 0 = Inr v \<and> v 0 0 0 = 0 \<and> flat_window 0 0 0 = 3)"
proof -
  have "flat_window 0 0 0 = 3" by (simp add: flat_window_def)
  then show ?thesis
    using svd_1x1_exact one_pixel_SVT one_pixel_Decompose one_pixel_Reconstruct_exp by blast
qed

text \<open>
  C2, amended. In scalar mode, for every window decomposed with an exact singular value
  decomposition, \<open>Reconstruct(0)\<close> returns a result, and in every frame of the window the
  result is the input value at each pixel that at least one decomposed patch covers in
  that frame, and 0 at each pixel that no patch covers.
\<close>

theorem zero_lambda_scalar_reproduces_covered:
  assumes "Decompose svd s u = Inr s'"
    and "\<not> svt_expWeighting s"
    and "\<forall>block. svd_exact (svt_blockSize s * svt_blockSize s) (svt_Nt s) svd block"
  shows "\<exists>v. Reconstruct s' 0 = Inr v \<and>
           (\<forall>r c k. k < svt_Nt s \<longrightarrow>
              v r c k = (if \<exists>it < svt_newVecSize s'. covers s' it k r c then u r c k else 0))"
proof -
  from reconstruct_zero_lambda [OF assms] obtain v where
    R: "Reconstruct s' 0 = Inr v"
    and cov: "\<forall>r c k. k < svt_Nt s \<longrightarrow> (\<exists>it < svt_newVecSize s'. covers s' it k r c) \<longrightarrow>
                     v r c k = u r c k"
    by blast
  from R obtain va w where acc: "accumulators s' 0 = Inr (va, w)"
    and v: "v = (\<lambda>r c k. if w r c k = 0 then 0 else va r c k / w r c k)"
    by (auto simp: Reconstruct_def bind_err_Inr_iff)
  have "v r c k = 0" if "\<not> (\<exists>it < svt_newVecSize s'. covers s' it k r c)" for r c k
  proof -
    from that have "\<forall>it < svt_newVecSize s'. \<not> covers s' it k r c" by blast
    from weight_zero [OF acc this] show ?thesis by (simp add: v)
  qed
  with R cov show ?thesis by (intro exI [of _ v]) auto
qed

text \<open>The one-pixel window in scalar mode is reproduced.\<close>

theorem zero_lambda_scalar_reproduces_covered_witness:
  "\<exists>v. Reconstruct (one_pixel_decomposed False) 0 = Inr v \<and> v 0 0 0 = 3 \<and> flat_window 0 0 0 = 3"
proof -
  have a: "\<not> svt_expWeighting (one_pixel_svt False)"
    "\<forall>block. svd_exact (svt_blockSize (one_pixel_svt False) * svt_blockSize (one_pixel_svt False))
               (svt_Nt (one_pixel_svt False)) svd_1x1 block"
    using svd_1x1_exact by (simp_all add: one_pixel_svt_def)
  from zero_lambda_scalar_reproduces_covered [OF one_pixel_Decompose a] obtain v where
    R: "Reconstruct (one_pixel_decomposed False) 0 = Inr v"
    and val: "\<forall>r c k. k < svt_Nt (one_pixel_svt False) \<longrightarrow>
              v r c k = (if \<exists>it < svt_newVecSize (one_pixel_decomposed False).
                               covers (one_pixel_decomposed False) it k r c
                         then flat_window r c k else 0)"
    by blast
  have "\<exists>it < svt_newVecSize (one_pixel_decomposed False). covers (one_pixel_decomposed False) it 0 0 0"
    using one_pixel_covers [of False] by (auto simp: one_pixel_decomposed_def)
  moreover have "0 < svt_Nt (one_pixel_svt False)" by (simp add: one_pixel_svt_def)
  ultimately have "v 0 0 0 = flat_window 0 0 0" using val by simp
  then show ?thesis using R by (auto simp: flat_window_def)
qed

subsection \<open>The patch grid covers the frame\<close>

lemma stride_member:
  "0 < step \<Longrightarrow> i + q * step < bound \<Longrightarrow> i + q * step \<in> set (strided i bound step)"
proof (induction q arbitrary: i)
  case 0
  then show ?case by (simp add: strided_step)
next
  case (Suc q)
  from Suc.prems have i: "i < bound" and r: "(i + step) + q * step < bound" by simp_all
  from Suc.IH [OF Suc.prems(1) r] show ?case
    using i Suc.prems(1) by (simp add: strided_step add.assoc)
qed

lemma stride_member0: "0 < step \<Longrightarrow> q * step < bound \<Longrightarrow> q * step \<in> set (strided 0 bound step)"
  using stride_member [of step 0 q bound] by simp

lemma decode_modulus: "Y < k \<Longrightarrow> (X * k + Y) mod k = Y \<and> (X * k + Y) div k = (X::nat)"
  by simp

lemma decode_index:
  assumes "Y \<le> n" "idx = X * (n + 1) + (Y::nat)"
  shows "idx mod (n + 1) = Y" "idx div (n + 1) = X"
proof -
  from assms(1) have "Y < n + 1" by simp
  from decode_modulus [OF this, of X]
  show "idx mod (n + 1) = Y" "idx div (n + 1) = X" unfolding assms(2) by blast+
qed

lemma skew_index:
  assumes "i = X + 1" "j + D = i" "Y + D = n + (1::nat)"
  shows "i * n + j = X * (n + 1) + Y"
proof -
  have "i * n + j + D = X * (n + 1) + Y + D"
    using assms by (simp add: algebra_simps)
  then show ?thesis by simp
qed

lemma stride_column:
  assumes bo: "0 < bo" "bo \<le> bs" and n: "n = m * bo" and c: "c < n + (bs::nat)"
  obtains a where "a \<le> m" "a * bo \<le> c" "c < a * bo + bs" "a < m \<Longrightarrow> c < a * bo + bo"
    "a = m \<Longrightarrow> n \<le> c"
proof (cases "c div bo < m")
  case True
  have 1: "(c div bo) * bo \<le> c" by simp
  have 2: "c < (c div bo) * bo + bo"
    using bo(1) by (metis add.commute div_mult_mod_eq add_less_cancel_left mod_less_divisor mult.commute)
  show ?thesis
  proof (rule that [of "c div bo"])
    show "c div bo \<le> m" using True by simp
    show "c div bo * bo \<le> c" by (rule 1)
    show "c < c div bo * bo + bs" using 2 bo(2) by simp
    show "c < c div bo * bo + bo" by (rule 2)
    show "n \<le> c" if "c div bo = m" using that True by simp
  qed
next
  case False
  then have "m \<le> c div bo" by simp
  then have "m * bo \<le> (c div bo) * bo" by (rule mult_le_mono1)
  also have "\<dots> \<le> c" by simp
  finally have nc: "n \<le> c" using n by simp
  show ?thesis
  proof (rule that [of m])
    show "m \<le> m" by simp
    show "m * bo \<le> c" using nc n by simp
    show "c < m * bo + bs" using c n by simp
    show "c < m * bo + bo" if "m < m" using that by simp
    show "n \<le> c" by (rule nc)
  qed
qed

lemma origin_coversI:
  assumes "Y \<le> n" "idx = X * (n + 1) + Y" "Y \<le> r" "r < Y + bs" "X \<le> c" "c < X + bs"
  shows "origin_covers n bs idx r c"
  using decode_index [OF assms(1,2)] assms(3-6) by (simp only: origin_covers_def)

lemma coverage_core:
  assumes bo: "0 < bo" "bo \<le> bs" and n: "n = m * bo" and r: "r < n + bs" and c: "c < n + bs"
  shows "(\<exists>a b. a \<le> m \<and> b \<le> m \<and> origin_covers n bs ((a * bo) * n + b * bo) r c)
       \<or> (\<exists>a\<le>m. origin_covers n bs ((n + 1) * n + a * bo) r c)
       \<or> (\<exists>a\<le>m. origin_covers n bs ((n + 1) * (a * bo) + n) r c)"
proof -
  from stride_column [OF bo n c] obtain a where
    a: "a \<le> m" "a * bo \<le> c" "c < a * bo + bs" "a < m \<Longrightarrow> c < a * bo + bo" "a = m \<Longrightarrow> n \<le> c"
    by blast
  from stride_column [OF bo n r] obtain d where
    d: "d \<le> m" "d * bo \<le> r" "r < d * bo + bs" "d < m \<Longrightarrow> r < d * bo + bo" "d = m \<Longrightarrow> n \<le> r"
    by blast
  have dn: "d * bo \<le> n" using d(1) n by simp
  consider (tri) "a + d \<le> m" | (bottom) "d = m" | (right) "a = m"
    | (skew) "m < a + d" "d < m" "a < m"
    using a(1) d(1) by linarith
  then show ?thesis
  proof cases
    case tri
    have "(a * bo) * n + (a + d) * bo = (a * bo) * (n + 1) + d * bo"
      by (simp add: algebra_simps)
    from origin_coversI [OF dn this d(2,3) a(2,3)] tri a(1) show ?thesis by blast
  next
    case bottom
    have e: "(n + 1) * (a * bo) + n = (a * bo) * (n + 1) + n" by (simp add: algebra_simps)
    have "n \<le> n" by simp
    from origin_coversI [OF this e d(5) [OF bottom] r a(2,3)] a(1) show ?thesis by blast
  next
    case right
    have e: "(n + 1) * n + d * bo = n * (n + 1) + d * bo" by (simp add: algebra_simps)
    from origin_coversI [OF dn e d(2,3) a(5) [OF right] c] d(1) show ?thesis by blast
  next
    case skew
    define A where "A = a * bo"
    define Dd where "Dd = d * bo"
    have A: "A \<le> c" "c < A + bo" using a(2) a(4) [OF skew(3)] by (simp_all add: A_def)
    have Dd: "Dd \<le> r" "r < Dd + bo" using d(2) d(4) [OF skew(2)] by (simp_all add: Dd_def)
    have a1: "1 \<le> a" and d1: "1 \<le> d" using skew by linarith+
    have Abo: "bo \<le> A" using a1 mult_le_mono1 [of 1 a bo] by (simp add: A_def)
    have Dbo: "bo \<le> Dd" using d1 mult_le_mono1 [of 1 d bo] by (simp add: Dd_def)
    have Dn: "Dd + bo \<le> n"
    proof -
      have "d + 1 \<le> m" using skew(2) by simp
      then have "(d + 1) * bo \<le> m * bo" by (rule mult_le_mono1)
      then show ?thesis by (simp add: Dd_def n algebra_simps)
    qed
    define a' where "a' = (if c + 1 < A + bs then a else a + 1)"
    define d' where "d' = (if r = Dd then m - d + 1 else m - d)"
    define X where "X = a' * bo - 1"
    define D where "D = d' * bo"
    define Y where "Y = n + 1 - D"
    have a'm: "a' \<le> m" using skew(3) by (simp add: a'_def)
    have d'1: "1 \<le> d'" using skew(2) unfolding d'_def by (cases "r = Dd") simp_all
    have "d' \<le> m - d + 1" by (simp add: d'_def)
    moreover have "a \<le> a'" by (simp add: a'_def)
    moreover have "m - d + 1 \<le> a" using skew by arith
    ultimately have d'a': "d' \<le> a'" by linarith
    have a'bo: "a' * bo = (if c + 1 < A + bs then A else A + bo)"
      by (simp add: a'_def A_def algebra_simps)
    have md: "(m - d) * bo = n - Dd" by (simp add: diff_mult_distrib n Dd_def)
    have Dval: "D = (if r = Dd then n - Dd + bo else n - Dd)"
      by (simp add: D_def d'_def md add_mult_distrib)
    have D1: "1 \<le> D" using d'1 bo(1) mult_le_mono [of 1 d' 1 bo] by (simp add: D_def)
    have DleN: "D \<le> n" using Dval Dn Dbo by (cases "r = Dd") simp_all
    have i: "a' * bo = X + 1" using Abo bo(1) a'bo by (simp add: X_def split: if_splits)
    have j: "(a' - d') * bo + D = a' * bo"
      using d'a' by (simp add: D_def diff_mult_distrib mult_le_mono1)
    have Y: "Y + D = n + 1" using DleN by (simp add: Y_def)
    have Yn: "Y \<le> n" using D1 Y by linarith
    from skew_index [OF i j Y]
    have idx: "(a' * bo) * n + (a' - d') * bo = X * (n + 1) + Y" .
    have Yr: "Y \<le> r" "r < Y + bs"
      using Y Dval Dd Dbo Dn bo by (auto split: if_splits)
    have Xc: "X \<le> c" "c < X + bs"
      using i a'bo A Abo bo by (auto split: if_splits)
    from origin_coversI [OF Yn idx Yr Xc] a'm d'a' show ?thesis
      by (intro disjI1 exI [of _ a'] exI [of _ "a' - d'"]) simp
  qed
qed

lemma u32_id: "0 \<le> x \<Longrightarrow> x < 2 ^ 32 \<Longrightarrow> u32 x = nat x"
  by (simp add: u32_def)

lemma SVT_square_fields:
  assumes S: "SVT patches N N Nt bs bo ew = Inr s0" and "bs \<le> N" "N < 2 ^ 32"
  shows "0 < bo" "svt_patches s0 = patches" "svt_Nx s0 = N" "svt_Ny s0 = N" "svt_Nt s0 = Nt"
    "svt_blockSize s0 = bs" "svt_blockOverlap s0 = bo" "svt_nxMbs s0 = N - bs" "svt_nyMbs s0 = N - bs"
    "svt_nxMbsDbo s0 = svt_nyMbsDbo s0"
proof -
  have u: "u32 (int N - int bs) = N - bs"
    using assms(2,3) u32_id [of "int N - int bs"] by simp
  from S show "0 < bo" by (auto simp: SVT_def Let_def split: if_splits)
  then have "s0 = \<lparr> svt_patches = patches, svt_Nx = N, svt_Ny = N, svt_Nt = Nt,
                     svt_blockSize = bs, svt_blockOverlap = bo,
                     svt_expWeighting = ew,
                     svt_nxMbs = N - bs, svt_nyMbs = N - bs,
                     svt_nxMbsDbo = (N - bs) div bo, svt_nyMbsDbo = (N - bs) div bo,
                     svt_vecSize = u32 (int ((1 + (N - bs) div bo) * (1 + (N - bs) div bo))),
                     svt_actualPatches = [], svt_newVecSize = 0,
                     svt_U = [], svt_S = [], svt_V = [] \<rparr>"
    using S by (simp add: SVT_def Let_def u)
  then show "svt_patches s0 = patches" "svt_Nx s0 = N" "svt_Ny s0 = N" "svt_Nt s0 = Nt"
    "svt_blockSize s0 = bs" "svt_blockOverlap s0 = bo" "svt_nxMbs s0 = N - bs" "svt_nyMbs s0 = N - bs"
    "svt_nxMbsDbo s0 = svt_nyMbsDbo s0"
    by simp_all
qed

lemma joined_members:
  assumes n: "svt_nxMbs s0 = n" "svt_nyMbs s0 = n" and bo: "svt_blockOverlap s0 = bo" "0 < bo"
    and eq: "svt_nxMbsDbo s0 = svt_nyMbsDbo s0" and small: "n + 1 < 2 ^ 32"
    and a: "a * bo \<le> n" and b: "b * bo \<le> n"
  shows "\<exists>joined. joinPatches s0 = Inr joined \<and>
           (a * bo) * n + b * bo \<in> set joined \<and>
           (n + 1) * n + a * bo \<in> set joined \<and>
           (n + 1) * (a * bo) + n \<in> set joined"
proof -
  have u: "u32 (1 + int n) = n + 1"
    using small u32_id [of "1 + int n"] by simp
  have ma: "a * bo \<in> set (strided 0 (n + 1) bo)" using a by (intro stride_member0 bo) simp
  have mb: "b * bo \<in> set (strided 0 (n + 1) bo)" using b by (intro stride_member0 bo) simp
  have f: "(a * bo) * n + b * bo \<in> set (firstPatches s0)"
    using ma mb by (auto simp: firstPatches_def n bo u)
  have r: "(n + 1) * n + a * bo \<in> set (patchesRightEdge s0)"
    using ma by (auto simp: patchesRightEdge_def n bo u)
  have bt: "(n + 1) * (a * bo) + n \<in> set (patchesBottomEdge s0)"
    using ma by (auto simp: patchesBottomEdge_def n bo u)
  show ?thesis using f r bt eq by (simp add: joinPatches_def)
qed

lemma grid_patch_exists:
  assumes S: "SVT patches N N Nt bs bo ew = Inr s0"
    and sz: "bo \<le> bs" "bs \<le> N" "N < 2 ^ 32" and dv: "bo dvd (N - bs)"
    and rc: "r < N" "c < N"
  shows "\<exists>joined idx. joinPatches s0 = Inr joined \<and> idx \<in> set joined \<and> origin_covers (N - bs) bs idx r c"
proof -
  note f = SVT_square_fields [OF S sz(2,3)]
  define n where "n = N - bs"
  from dv obtain m where m: "n = m * bo" unfolding n_def by (metis dvd_def mult.commute)
  have bs1: "1 \<le> bs" using f(1) sz(1) by simp
  have small: "n + 1 < 2 ^ 32" using sz bs1 by (simp add: n_def)
  have r: "r < n + bs" and c: "c < n + bs" using rc sz(2) by (simp_all add: n_def)
  have le: "a * bo \<le> n" if "a \<le> m" for a using that m by simp
  have J: "\<exists>joined. joinPatches s0 = Inr joined \<and>
           (a * bo) * n + b * bo \<in> set joined \<and>
           (n + 1) * n + a * bo \<in> set joined \<and>
           (n + 1) * (a * bo) + n \<in> set joined" if "a \<le> m" "b \<le> m" for a b
    using joined_members [OF f(8) [folded n_def] f(9) [folded n_def] f(7) f(1) f(10) small
        le [OF that(1)] le [OF that(2)]] .
  from coverage_core [OF f(1) sz(1) m r c]
  show ?thesis
  proof (elim disjE exE conjE)
    fix a b assume "a \<le> m" "b \<le> m" "origin_covers n bs ((a * bo) * n + b * bo) r c"
    with J [of a b] show ?thesis unfolding n_def by blast
  next
    fix a assume "a \<le> m" "origin_covers n bs ((n + 1) * n + a * bo) r c"
    with J [of a a] show ?thesis unfolding n_def by blast
  next
    fix a assume "a \<le> m" "origin_covers n bs ((n + 1) * (a * bo) + n) r c"
    with J [of a a] show ?thesis unfolding n_def by blast
  qed
qed

lemma strided_bound: "x \<in> set (strided i bound step) \<Longrightarrow> x < bound"
proof (induction i bound step rule: strided.induct)
  case (1 i bound step)
  show ?case
  proof (cases "i < bound \<and> 0 < step")
    case True
    with "1.prems" have "x = i \<or> x \<in> set (strided (i + step) bound step)"
      by (simp add: strided_step)
    then show ?thesis using True "1.IH" by blast
  next
    case False
    with "1.prems" show ?thesis by (subst (asm) strided.simps) simp
  qed
qed

lemma joined_bound:
  assumes n: "svt_nxMbs s0 = n" "svt_nyMbs s0 = n" and small: "n + 1 < 2 ^ 32"
    and j: "joinPatches s0 = Inr joined" and idx: "idx \<in> set joined"
  shows "idx < (n + 1) * (n + 1)"
proof -
  have u: "u32 (1 + int n) = n + 1"
    using small u32_id [of "1 + int n"] by simp
  have top: "a * n + b < (n + 1) * (n + 1)" if "a < n + 1" "b < n + 1" for a b
  proof -
    have "a \<le> n" using that(1) by simp
    then have "a * n \<le> n * n" by (rule mult_le_mono1)
    moreover have "(n + 1) * (n + 1) = n * n + n + n + 1" by (simp add: algebra_simps)
    ultimately show ?thesis using that(2) by linarith
  qed
  have edge: "(n + 1) * a + b < (n + 1) * (n + 1)" if "a < n + 1" "b < n + 1" for a b
  proof -
    have "a \<le> n" using that(1) by simp
    then have "(n + 1) * a \<le> (n + 1) * n" by (rule mult_le_mono2)
    moreover have "(n + 1) * (n + 1) = (n + 1) * n + n + 1" by (simp add: algebra_simps)
    ultimately show ?thesis using that(2) by linarith
  qed
  from j idx have "idx \<in> set (firstPatches s0) \<or> idx \<in> set (patchesRightEdge s0)
      \<or> idx \<in> set (patchesBottomEdge s0)"
    by (auto simp: joinPatches_def split: if_splits)
  then show ?thesis
  proof (elim disjE)
    assume "idx \<in> set (firstPatches s0)"
    then obtain a b where "idx = a * n + b" "a < n + 1" "b < n + 1"
      by (auto simp: firstPatches_def n u dest: strided_bound)
    with top show ?thesis by simp
  next
    assume "idx \<in> set (patchesRightEdge s0)"
    then obtain b where "idx = (n + 1) * n + b" "b < n + 1"
      by (auto simp: patchesRightEdge_def n u dest: strided_bound)
    with edge [of n b] show ?thesis by simp
  next
    assume "idx \<in> set (patchesBottomEdge s0)"
    then obtain a where "idx = (n + 1) * a + n" "a < n + 1"
      by (auto simp: patchesBottomEdge_def n u dest: strided_bound)
    with edge [of a n] show ?thesis by simp
  qed
qed

lemma span_okI: "x \<le> n \<Longrightarrow> 1 \<le> bs \<Longrightarrow> span_ok (n + bs) bs (int x)"
  by (simp add: span_ok_def)

lemma grid_origin_located:
  assumes "svt_patches s0 idx k = Some (grid_origin n n idx)" "idx < (n + 1) * (n + 1)"
    and "svt_Nx s0 = n + bs" "svt_Ny s0 = n + bs" "svt_blockSize s0 = bs" "1 \<le> bs"
  shows "located s0 idx k"
proof -
  have "idx mod (n + 1) < n + 1" by simp
  then have m: "idx mod (n + 1) \<le> n" by linarith
  have "idx div (n + 1) < n + 1"
    using assms(2) by (simp add: less_mult_imp_div_less)
  then have d: "idx div (n + 1) \<le> n" by linarith
  have p: "svt_patches s0 idx k = Some (int (idx mod (n + 1)), int (idx div (n + 1)))"
    using assms(1) by (simp add: grid_origin_def)
  show ?thesis
    using span_okI [OF m assms(6)] span_okI [OF d assms(6)]
    by (simp only: located_def p assms(3,4,5) option.case prod.case)
qed

lemma still_Decompose_succeeds:
  assumes S: "SVT patches N N Nt bs bo ew = Inr s0"
    and sz: "1 \<le> bs" "bs \<le> N" "N < 2 ^ 32"
    and still: "\<forall>idx k. k < Nt \<longrightarrow> patches idx k = Some (grid_origin (N - bs) (N - bs) idx)"
  shows "\<exists>s. Decompose svd s0 u = Inr s"
proof -
  note f = SVT_square_fields [OF S sz(2,3)]
  have small: "(N - bs) + 1 < 2 ^ 32" using sz by simp
  from f(10) obtain joined where j: "joinPatches s0 = Inr joined" by (simp add: joinPatches_def)
  have "\<forall>idx \<in> set joined. \<forall>k < svt_Nt s0. located s0 idx k"
  proof (intro ballI allI impI)
    fix idx k assume idx: "idx \<in> set joined" and k: "k < svt_Nt s0"
    have p: "svt_patches s0 idx k = Some (grid_origin (N - bs) (N - bs) idx)"
      using still k f(2,5) by simp
    have N: "svt_Nx s0 = (N - bs) + bs" "svt_Ny s0 = (N - bs) + bs" using f(3,4) sz(2) by simp_all
    from grid_origin_located [OF p joined_bound [OF f(8,9) small j idx] N f(6) sz(1)]
    show "located s0 idx k" .
  qed
  from Decompose_succeeds [OF j this] show ?thesis .
qed

lemma grid_origin_2x2:
  "grid_origin (Suc 0) (Suc 0) 0 = (0, 0)" "grid_origin (Suc 0) (Suc 0) (Suc 0) = (1, 0)"
  "grid_origin (Suc 0) (Suc 0) 2 = (0, 1)" "grid_origin (Suc 0) (Suc 0) 3 = (1, 1)"
  by code_simp+

subsection \<open>The claim about coverage\<close>

text \<open>
  C1, counterexample. Two frames of 2 by 2 pixels, patch size and overlap one (every
  pixel is a patch origin), and a motion field that finds the top-left patch one row
  lower in the second frame: whatever the decomposition, the window and the threshold,
  the weight accumulator is 0 at the top-left pixel of the second frame.
\<close>

theorem moved_patch_uncovers_pixel_counterexample:
  "\<forall>svd u lam. \<exists>s0 s v w. SVT moved_patches 2 2 2 1 1 False = Inr s0 \<and>
      Decompose svd s0 u = Inr s \<and> accumulators s lam = Inr (v, w) \<and> w 0 0 1 = 0"
proof (intro allI)
  fix svd :: "mat \<Rightarrow> mat \<times> vec \<times> mat" and u :: cube and lam :: real
  obtain s0 where S: "SVT moved_patches 2 2 2 1 1 False = Inr s0"
    by (simp add: SVT_def Let_def)
  have sz: "(1::nat) \<le> 2" "(2::nat) < 2 ^ 32" by simp_all
  note f = SVT_square_fields [OF S sz]
  have u: "u32 2 = 2" by (simp add: u32_def)
  have st: "strided 0 2 (Suc 0) = [0, 1]"
    by (simp add: strided_step strided_stop)
  have j: "joinPatches s0 = Inr [0, 1, 1, 2, 2, 3, 1, 3]"
    using f(10) by (simp add: joinPatches_def firstPatches_def patchesRightEdge_def
        patchesBottomEdge_def f u st)
  have loc: "\<forall>idx \<in> set [0, 1, 1, 2, 2, 3, 1, 3]. \<forall>k < svt_Nt s0. located s0 idx k"
    by (simp add: located_def f(2-6) moved_patches_def grid_origin_2x2 span_ok_def)
  from Decompose_succeeds [OF j loc] obtain s where D: "Decompose svd s0 u = Inr s" by blast
  note g = Decompose_fields [OF D]
  from Decompose_then_accumulators [OF D] obtain v w where acc: "accumulators s lam = Inr (v, w)"
    by blast
  have "\<forall>it < svt_newVecSize s. \<not> covers s it 1 0 0"
  proof (intro allI impI)
    fix it assume "it < svt_newVecSize s"
    then have "svt_actualPatches s ! it \<in> set (svt_actualPatches s)" using g(7) by simp
    then have "svt_actualPatches s ! it \<in> {0, 1, 2, 3}" using g(8) j by auto
    then show "\<not> covers s it 1 0 0"
      by (auto simp: covers_def patch_at_def g(1,5) f(2-6) moved_patches_def grid_origin_2x2 in_block_def)
  qed
  from weight_zero [OF acc this] S D acc
  show "\<exists>s0 s v w. SVT moved_patches 2 2 2 1 1 False = Inr s0 \<and>
      Decompose svd s0 u = Inr s \<and> accumulators s lam = Inr (v, w) \<and> w 0 0 1 = 0"
    by blast
qed

text \<open>
  C1, amended. In a square frame, with \<open>blockOverlap \<le> blockSize \<le> Nx\<close> and
  \<open>blockOverlap\<close> dividing \<open>Nx - blockSize\<close>, in every frame of the window in which the
  decomposed patches sit at their grid origins (as they do in the reference frame), every
  pixel is covered by a decomposed patch, and the weight accumulator built by
  \<open>Reconstruct\<close> is at least 1 there.
\<close>

theorem grid_frame_covered:
  assumes S: "SVT patches N N Nt bs bo ew = Inr s0"
    and sz: "bo \<le> bs" "bs \<le> N" "N < 2 ^ 32" and dv: "bo dvd (N - bs)"
    and D: "Decompose svd s0 u = Inr s"
    and k: "k < Nt"
    and still: "\<forall>idx \<in> set (svt_actualPatches s). patches idx k = Some (grid_origin (N - bs) (N - bs) idx)"
    and rc: "r < N" "c < N"
  shows "(\<exists>it < svt_newVecSize s. covers s it k r c) \<and>
         (\<exists>v w. accumulators s lam = Inr (v, w) \<and> 1 \<le> w r c k)"
proof -
  note f = SVT_square_fields [OF S sz(2,3)]
  note g = Decompose_fields [OF D]
  from grid_patch_exists [OF S sz dv rc] obtain joined idx where
    j: "joinPatches s0 = Inr joined" and idx: "idx \<in> set joined"
    and oc: "origin_covers (N - bs) bs idx r c" by blast
  from g(8) j have "idx \<in> set (svt_actualPatches s)" using idx by auto
  then obtain it where it: "it < length (svt_actualPatches s)" and nth: "svt_actualPatches s ! it = idx"
    by (auto simp: in_set_conv_nth)
  have p: "patch_at s it k = Some (grid_origin (N - bs) (N - bs) idx)"
    using still it nth by (auto simp: patch_at_def g(1) f(2))
  have cov: "covers s it k r c"
    using oc by (simp add: covers_def p grid_origin_def in_block_def origin_covers_def g(5) f(6))
  have it': "it < svt_newVecSize s" using it g(7) by simp
  from Decompose_then_accumulators [OF D] obtain v w where acc: "accumulators s lam = Inr (v, w)"
    by blast
  have "k < svt_Nt s" using k g(4) f(5) by simp
  from weight_at_least_one [OF acc it' this cov] acc cov it' show ?thesis by blast
qed

text \<open>
  A frame of 4 by 4 pixels with patch size and overlap 2 and no motion: the bottom-right
  pixel has weight at least 1.
\<close>

theorem grid_frame_covered_witness:
  "\<exists>s0 s v w. SVT (still_patches 2 2) 4 4 1 2 2 False = Inr s0 \<and>
      Decompose (svd_column 4) s0 flat_window = Inr s \<and>
      accumulators s 0 = Inr (v, w) \<and> 1 \<le> w 3 3 0"
proof -
  obtain s0 where S: "SVT (still_patches 2 2) 4 4 1 2 2 False = Inr s0"
    by (simp add: SVT_def Let_def)
  have sz: "(2::nat) \<le> 2" "(2::nat) \<le> 4" "(4::nat) < 2 ^ 32" "(1::nat) \<le> 2" by simp_all
  have still: "\<forall>idx k. k < 1 \<longrightarrow> still_patches 2 2 idx k = Some (grid_origin (4 - 2) (4 - 2) idx)"
    by (simp add: still_patches_def)
  from still_Decompose_succeeds [OF S sz(4,2,3) still]
  obtain s where D: "Decompose (svd_column 4) s0 flat_window = Inr s" by blast
  have dv: "(2::nat) dvd (4 - 2)" by simp
  have st: "\<forall>idx \<in> set (svt_actualPatches s). still_patches 2 2 idx 0 = Some (grid_origin (4 - 2) (4 - 2) idx)"
    by (simp add: still_patches_def)
  have k: "(0::nat) < 1" and rc: "(3::nat) < 4" by simp_all
  from grid_frame_covered [OF S sz(1,2,3) dv D k st rc rc, of 0]
  show ?thesis using S D by blast
qed

subsection \<open>The corner the forced edges miss\<close>

lemma grid_origin_corner:
  "grid_origin (Suc 0) (Suc 0) 0 = (0, 0)" "grid_origin (Suc 0) (Suc 0) (Suc 0) = (1, 0)"
  "grid_origin (Suc 0) (Suc 0) 2 = (0, 1)"
  by code_simp+

text \<open>
  The divisibility hypothesis of the coverage theorem cannot be dropped. In a frame of
  3 by 3 pixels with patch size and overlap two, the strided grid has the single origin
  \<open>(0, 0)\<close>, the forced edges add \<open>(1, 0)\<close> and \<open>(0, 1)\<close>, and no patch reaches the
  bottom-right pixel, although no patch has moved.
\<close>

lemma corner_pixel_not_covered:
  "\<forall>svd u lam. \<exists>s0 s v w. SVT (still_patches 1 1) 3 3 1 2 2 False = Inr s0 \<and>
      Decompose svd s0 u = Inr s \<and> accumulators s lam = Inr (v, w) \<and> w 2 2 0 = 0"
proof (intro allI)
  fix svd :: "mat \<Rightarrow> mat \<times> vec \<times> mat" and u :: cube and lam :: real
  obtain s0 where S: "SVT (still_patches 1 1) 3 3 1 2 2 False = Inr s0"
    by (simp add: SVT_def Let_def)
  have sz: "(2::nat) \<le> 3" "(3::nat) < 2 ^ 32" by simp_all
  note f = SVT_square_fields [OF S sz]
  have u: "u32 2 = 2" by (simp add: u32_def)
  have st: "strided 0 2 2 = [0]"
    by (simp add: strided_step strided_stop)
  have j: "joinPatches s0 = Inr [0, 2, 1]"
    using f(10) by (simp add: joinPatches_def firstPatches_def patchesRightEdge_def
        patchesBottomEdge_def f u st)
  have loc: "\<forall>idx \<in> set [0, 2, 1]. \<forall>k < svt_Nt s0. located s0 idx k"
    by (simp add: located_def f(2-6) still_patches_def grid_origin_corner span_ok_def)
  from Decompose_succeeds [OF j loc] obtain s where D: "Decompose svd s0 u = Inr s" by blast
  note g = Decompose_fields [OF D]
  from Decompose_then_accumulators [OF D] obtain v w where acc: "accumulators s lam = Inr (v, w)"
    by blast
  have "\<forall>it < svt_newVecSize s. \<not> covers s it 0 2 2"
  proof (intro allI impI)
    fix it assume "it < svt_newVecSize s"
    then have "svt_actualPatches s ! it \<in> set (svt_actualPatches s)" using g(7) by simp
    then have "svt_actualPatches s ! it \<in> {0, 1, 2}" using g(8) j by auto
    then show "\<not> covers s it 0 2 2"
      by (auto simp: covers_def patch_at_def g(1,5) f(2-6) still_patches_def grid_origin_corner in_block_def)
  qed
  from weight_zero [OF acc this] S D acc
  show "\<exists>s0 s v w. SVT (still_patches 1 1) 3 3 1 2 2 False = Inr s0 \<and>
      Decompose svd s0 u = Inr s \<and> accumulators s lam = Inr (v, w) \<and> w 2 2 0 = 0"
    by blast
qed

subsection \<open>The ARPS search\<close>

lemma point0_less: "costs \<noteq> [] \<Longrightarrow> point0 costs < length costs"
proof -
  assume ne: "costs \<noteq> []"
  have "arma_min costs \<in> set costs"
    using Min_in [of "set costs"] ne by (simp add: arma_min_Min)
  then have "\<exists>c \<in> set costs. \<not> c \<noteq> arma_min costs" by blast
  then have "takeWhile (\<lambda>c. c \<noteq> arma_min costs) costs \<noteq> costs" by simp
  then have "length (takeWhile (\<lambda>c. c \<noteq> arma_min costs) costs) \<noteq> length costs"
    by (metis takeWhile_eq_take take_all order_refl)
  then show ?thesis
    unfolding point0_def using length_takeWhile_le [of "\<lambda>c. c \<noteq> arma_min costs" costs] by linarith
qed

lemma point0_min: "costs \<noteq> [] \<Longrightarrow> costs ! point0 costs = arma_min costs"
proof -
  assume ne: "costs \<noteq> []"
  from point0_less [OF ne] have "point0 costs < length costs" .
  then have "\<not> (costs ! point0 costs \<noteq> arma_min costs)"
    unfolding point0_def by (rule nth_length_takeWhile)
  then show ?thesis by simp
qed

lemma point0_before: "k < point0 costs \<Longrightarrow> costs ! k \<noteq> arma_min costs"
  unfolding point0_def
  by (metis (mono_tags, lifting) nth_mem set_takeWhileD takeWhile_nth)

lemma arma_min_le: "k < length costs \<Longrightarrow> arma_min costs \<le> costs ! k"
proof -
  assume k: "k < length costs"
  then have ne: "costs \<noteq> []" by auto
  show ?thesis using k by (simp add: arma_min_Min [OF ne])
qed

text \<open>Induction over the runs of the SDSP loop that return.\<close>

lemmas sdsp_search_partial_induct =
  sdsp_search.raw_induct [where xa = "((((((((outside, cost), w), i), j), x), y), costs), checkMat)"
    for outside cost w i j x y costs checkMat, simplified]

lemma in_box_cell_ok:
  "in_box w i j ver hor \<Longrightarrow> cell_ok w (ver - i + w) (hor - j + w)"
  by (auto simp: in_box_def cell_ok_def)

lemma in_box_iff:
  "in_box w i j ver hor \<longleftrightarrow> \<not> (hor < j - w \<or> hor > j + w \<or> ver < i - w \<or> ver > i + w)"
  by (auto simp: in_box_def)

text \<open>
  One pass of the small pattern never fails, and a cost entry it changes belongs to a
  candidate inside the search box whose cell was free before and is marked afterwards.
\<close>

lemma sdsp_pass_props:
  assumes "0 \<le> w"
  shows "\<exists>costs' M'. sdsp_pass outside cost w i j x y ks (costs, M) = Inr (costs', M') \<and>
           length costs' = length costs \<and> M \<subseteq> M' \<and>
           (\<forall>k. costs' ! k \<noteq> costs ! k \<longrightarrow>
                k \<in> set ks \<and> k \<noteq> 2 \<and>
                in_box w i j (y + snd (SDSP ! k)) (x + fst (SDSP ! k)) \<and>
                (y - i + snd (SDSP ! k) + w, x - j + fst (SDSP ! k) + w) \<notin> M \<and>
                (y - i + snd (SDSP ! k) + w, x - j + fst (SDSP ! k) + w) \<in> M')"
proof (induction ks arbitrary: costs M)
  case Nil
  then show ?case by simp
next
  case (Cons k ks)
  let ?ver = "y + snd (SDSP ! k)" and ?hor = "x + fst (SDSP ! k)"
  let ?cell = "(y - i + snd (SDSP ! k) + w, x - j + fst (SDSP ! k) + w)"
  let ?evaluated = "\<not> outside ?ver ?hor \<and> k \<noteq> 2 \<and> in_box w i j ?ver ?hor \<and> ?cell \<notin> M"
  show ?case
  proof (cases ?evaluated)
    case False
    then have skip: "sdsp_pass outside cost w i j x y (k # ks) (costs, M)
                     = sdsp_pass outside cost w i j x y ks (costs, M)"
      using in_box_cell_ok [of w i j ?ver ?hor]
      by (auto simp: Let_def in_box_iff algebra_simps)
    from Cons.IH [of costs M] show ?thesis unfolding skip by auto
  next
    case True
    then have ok: "cell_ok w (y - i + snd (SDSP ! k) + w) (x - j + fst (SDSP ! k) + w)"
      using in_box_cell_ok [of w i j ?ver ?hor] by (simp add: algebra_simps)
    have step: "sdsp_pass outside cost w i j x y (k # ks) (costs, M)
                = sdsp_pass outside cost w i j x y ks (costs[k := cost ?ver ?hor], insert ?cell M)"
      using True ok by (auto simp: Let_def in_box_iff)
    from Cons.IH [of "costs[k := cost ?ver ?hor]" "insert ?cell M"]
    obtain costs' M' where
      r: "sdsp_pass outside cost w i j x y ks (costs[k := cost ?ver ?hor], insert ?cell M) = Inr (costs', M')"
      and len: "length costs' = length (costs[k := cost ?ver ?hor])"
      and sub: "insert ?cell M \<subseteq> M'"
      and ch: "\<forall>k'. costs' ! k' \<noteq> (costs[k := cost ?ver ?hor]) ! k' \<longrightarrow>
                k' \<in> set ks \<and> k' \<noteq> 2 \<and>
                in_box w i j (y + snd (SDSP ! k')) (x + fst (SDSP ! k')) \<and>
                (y - i + snd (SDSP ! k') + w, x - j + fst (SDSP ! k') + w) \<notin> insert ?cell M \<and>
                (y - i + snd (SDSP ! k') + w, x - j + fst (SDSP ! k') + w) \<in> M'"
      by blast
    have "k' \<in> set (k # ks) \<and> k' \<noteq> 2 \<and>
                in_box w i j (y + snd (SDSP ! k')) (x + fst (SDSP ! k')) \<and>
                (y - i + snd (SDSP ! k') + w, x - j + fst (SDSP ! k') + w) \<notin> M \<and>
                (y - i + snd (SDSP ! k') + w, x - j + fst (SDSP ! k') + w) \<in> M'"
      if c: "costs' ! k' \<noteq> costs ! k'" for k'
    proof (cases "costs' ! k' \<noteq> (costs[k := cost ?ver ?hor]) ! k'")
      case True
      with ch show ?thesis by auto
    next
      case False
      with c have "(costs[k := cost ?ver ?hor]) ! k' \<noteq> costs ! k'" by simp
      then have "k' = k" by (metis nth_list_update_neq)
      with \<open>?evaluated\<close> sub show ?thesis by auto
    qed
    with r len sub show ?thesis unfolding step by auto
  qed
qed

lemma ldsp_pass_props:
  "ldsp_pass outside cost w x y pattern stepSize ks (costs, M) = Inr (costs', M') \<Longrightarrow>
   length costs' = length costs \<and>
   (\<forall>k. costs' ! k \<noteq> costs ! k \<longrightarrow>
        k \<in> set ks \<and> k \<noteq> 2 \<and> cell_ok w (snd (pattern ! k) + w) (fst (pattern ! k) + w))"
proof (induction ks arbitrary: costs M)
  case Nil
  then show ?case by simp
next
  case (Cons k ks)
  let ?ver = "y + snd (pattern ! k)" and ?hor = "x + fst (pattern ! k)"
  let ?cell = "(snd (pattern ! k) + w, fst (pattern ! k) + w)"
  let ?evaluated = "\<not> outside ?ver ?hor \<and> \<not> (k = 2 \<or> stepSize = 0)"
  show ?case
  proof (cases ?evaluated)
    case False
    then have "ldsp_pass outside cost w x y pattern stepSize ks (costs, M) = Inr (costs', M')"
      using Cons.prems by (auto simp: Let_def split: if_splits)
    from Cons.IH [OF this] show ?thesis by auto
  next
    case True
    then have ok: "cell_ok w (snd (pattern ! k) + w) (fst (pattern ! k) + w)"
      and r: "ldsp_pass outside cost w x y pattern stepSize ks
                (costs[k := cost ?ver ?hor], insert ?cell M) = Inr (costs', M')"
      using Cons.prems by (auto simp: Let_def split: if_splits)
    from Cons.IH [OF r] have len: "length costs' = length costs"
      and ch: "\<forall>k'. costs' ! k' \<noteq> (costs[k := cost ?ver ?hor]) ! k' \<longrightarrow>
                k' \<in> set ks \<and> k' \<noteq> 2 \<and> cell_ok w (snd (pattern ! k') + w) (fst (pattern ! k') + w)"
      by simp_all
    have "k' \<in> set (k # ks) \<and> k' \<noteq> 2 \<and> cell_ok w (snd (pattern ! k') + w) (fst (pattern ! k') + w)"
      if c: "costs' ! k' \<noteq> costs ! k'" for k'
    proof (cases "costs' ! k' \<noteq> (costs[k := cost ?ver ?hor]) ! k'")
      case True
      with ch show ?thesis by auto
    next
      case False
      with c have "(costs[k := cost ?ver ?hor]) ! k' \<noteq> costs ! k'" by simp
      then have "k' = k" by (metis nth_list_update_neq)
      with \<open>?evaluated\<close> ok show ?thesis by auto
    qed
    with len show ?thesis by auto
  qed
qed

lemma reset_costs_nth:
  "length (reset_costs c) = 6" "reset_costs c ! 2 = c"
  "k < 6 \<Longrightarrow> k \<noteq> 2 \<Longrightarrow> reset_costs c ! k = costsScale"
  by (simp_all add: reset_costs_def)

lemma SDSP_nth:
  "SDSP ! 0 = (0, - 1)" "SDSP ! 1 = (- 1, 0)" "SDSP ! 2 = (0, 0)" "SDSP ! 3 = (1, 0)" "SDSP ! 4 = (0, 1)"
  by (simp_all add: SDSP_def)

text \<open>
  What one pass of the small pattern does to a cost vector that was reset around the
  centre cost \<open>c2\<close>.
\<close>

lemma sdsp_pass_reset:
  assumes w: "0 \<le> w"
  obtains costs' M' where
    "sdsp_pass outside cost w i j x y [0 ..< 5] (reset_costs c2, M) = Inr (costs', M')"
    "length costs' = 6" "costs' ! 2 = c2" "costs' ! 5 = costsScale" "M \<subseteq> M'"
    "\<And>k. k < 5 \<Longrightarrow> costs' ! k \<noteq> costsScale \<Longrightarrow> k \<noteq> 2 \<Longrightarrow>
        in_box w i j (y + snd (SDSP ! k)) (x + fst (SDSP ! k)) \<and>
        (y - i + snd (SDSP ! k) + w, x - j + fst (SDSP ! k) + w) \<notin> M \<and>
        (y - i + snd (SDSP ! k) + w, x - j + fst (SDSP ! k) + w) \<in> M'"
proof -
  from sdsp_pass_props [OF w, of outside cost i j x y "[0 ..< 5]" "reset_costs c2" M]
  obtain costs' M' where
    r: "sdsp_pass outside cost w i j x y [0 ..< 5] (reset_costs c2, M) = Inr (costs', M')"
    and len: "length costs' = length (reset_costs c2)" and sub: "M \<subseteq> M'"
    and ch: "\<forall>k. costs' ! k \<noteq> reset_costs c2 ! k \<longrightarrow>
                k \<in> set [0 ..< 5] \<and> k \<noteq> 2 \<and>
                in_box w i j (y + snd (SDSP ! k)) (x + fst (SDSP ! k)) \<and>
                (y - i + snd (SDSP ! k) + w, x - j + fst (SDSP ! k) + w) \<notin> M \<and>
                (y - i + snd (SDSP ! k) + w, x - j + fst (SDSP ! k) + w) \<in> M'"
    by blast
  show ?thesis
  proof (rule that [OF r])
    show "length costs' = 6" using len by (simp add: reset_costs_nth)
    show "costs' ! 2 = c2" using ch [rule_format, of 2] by (auto simp: reset_costs_nth)
    show "costs' ! 5 = costsScale" using ch [rule_format, of 5] by (auto simp: reset_costs_nth)
    show "M \<subseteq> M'" by (rule sub)
    show "in_box w i j (y + snd (SDSP ! k)) (x + fst (SDSP ! k)) \<and>
        (y - i + snd (SDSP ! k) + w, x - j + fst (SDSP ! k) + w) \<notin> M \<and>
        (y - i + snd (SDSP ! k) + w, x - j + fst (SDSP ! k) + w) \<in> M'"
      if "k < 5" "costs' ! k \<noteq> costsScale" "k \<noteq> 2" for k
    proof -
      have "reset_costs c2 ! k = costsScale" using that by (simp add: reset_costs_nth)
      with that(2) have "costs' ! k \<noteq> reset_costs c2 ! k" by simp
      with ch show ?thesis by blast
    qed
  qed
qed

lemma sdsp_search_in_box_aux:
  assumes run: "sdsp_search outside cost w i j x y costs M = Some r"
  shows "0 \<le> w \<longrightarrow> (\<forall>c2. costs = reset_costs c2 \<longrightarrow> (c2 < costsScale \<longrightarrow> in_box w i j y x) \<longrightarrow>
     (\<forall>yf xf. r = Inr (yf, xf) \<longrightarrow> in_box w i j yf xf))"
proof (rule sdsp_search_partial_induct
    [where P = "\<lambda>outside cost w i j x y costs M r.
       0 \<le> w \<longrightarrow> (\<forall>c2. costs = reset_costs c2 \<longrightarrow> (c2 < costsScale \<longrightarrow> in_box w i j y x) \<longrightarrow>
         (\<forall>yf xf. r = Inr (yf, xf) \<longrightarrow> in_box w i j yf xf))", OF _ run])
  fix search outside cost w i j x y costs M r
  assume IH: "\<And>outside cost w i j x y costs M r. search outside cost w i j x y costs M = Some r \<Longrightarrow>
       0 \<le> w \<longrightarrow> (\<forall>c2. costs = reset_costs c2 \<longrightarrow> (c2 < costsScale \<longrightarrow> in_box w i j y x) \<longrightarrow>
         (\<forall>yf xf. r = Inr (yf, xf) \<longrightarrow> in_box w i j yf xf))"
    and unfolded: "(case sdsp_pass outside cost w i j x y [0..<5] (costs, M) of
      Inl e \<Rightarrow> Some (Inl e)
      | Inr st \<Rightarrow>
          if point0 (fst st) = 2 then Some (Inr (y, x))
          else if 5 \<le> point0 (fst st) then Some (Inl ArpsIndexOutOfBounds)
               else search outside cost w i j
                     (x + fst (SDSP ! point0 (fst st)))
                     (y + snd (SDSP ! point0 (fst st)))
                     (reset_costs (arma_min (fst st))) (snd st)) = Some r"
  show "0 \<le> w \<longrightarrow> (\<forall>c2. costs = reset_costs c2 \<longrightarrow> (c2 < costsScale \<longrightarrow> in_box w i j y x) \<longrightarrow>
         (\<forall>yf xf. r = Inr (yf, xf) \<longrightarrow> in_box w i j yf xf))"
  proof (intro impI allI)
    fix c2 yf xf
    assume w: "0 \<le> w" and costs: "costs = reset_costs c2"
      and inv: "c2 < costsScale \<longrightarrow> in_box w i j y x" and r: "r = Inr (yf, xf)"
    from sdsp_pass_reset [OF w, of outside cost i j x y c2 M] obtain costs' M' where
      pass: "sdsp_pass outside cost w i j x y [0 ..< 5] (reset_costs c2, M) = Inr (costs', M')"
      and len: "length costs' = 6" and c2: "costs' ! 2 = c2" and c5: "costs' ! 5 = costsScale"
      and ev: "\<And>k. k < 5 \<Longrightarrow> costs' ! k \<noteq> costsScale \<Longrightarrow> k \<noteq> 2 \<Longrightarrow>
        in_box w i j (y + snd (SDSP ! k)) (x + fst (SDSP ! k)) \<and>
        (y - i + snd (SDSP ! k) + w, x - j + fst (SDSP ! k) + w) \<notin> M \<and>
        (y - i + snd (SDSP ! k) + w, x - j + fst (SDSP ! k) + w) \<in> M'"
      by blast
    have ne: "costs' \<noteq> []" using len by auto
    let ?p = "point0 costs'"
    note pmin = point0_min [OF ne]
    have body: "(if ?p = 2 then Some (Inr (y, x))
                 else if 5 \<le> ?p then Some (Inl ArpsIndexOutOfBounds)
                 else search outside cost w i j (x + fst (SDSP ! ?p)) (y + snd (SDSP ! ?p))
                        (reset_costs (arma_min costs')) M') = Some r"
      using unfolded unfolding costs pass by (simp only: sum.case fst_conv snd_conv)
    show "in_box w i j yf xf"
    proof (cases "?p = 2")
      case True
      with body r have fin: "yf = y" "xf = x" by simp_all
      show ?thesis
      proof (cases "c2 < costsScale")
        case True
        with inv fin show ?thesis by simp
      next
        case False
        have m: "arma_min costs' = c2" using pmin \<open>?p = 2\<close> c2 by simp
        have "costs' ! 0 \<noteq> arma_min costs'" "costs' ! 1 \<noteq> arma_min costs'"
          using point0_before [of 0 costs'] point0_before [of 1 costs'] \<open>?p = 2\<close> by simp_all
        moreover have "arma_min costs' \<le> costs' ! 0" "arma_min costs' \<le> costs' ! 1"
          using arma_min_le [of 0 costs'] arma_min_le [of 1 costs'] len by simp_all
        ultimately have "costs' ! 0 \<noteq> costsScale" "costs' ! 1 \<noteq> costsScale"
          using m False by linarith+
        then have "in_box w i j (y + snd (SDSP ! 0)) (x + fst (SDSP ! 0))"
          "in_box w i j (y + snd (SDSP ! 1)) (x + fst (SDSP ! 1))"
          using ev [of 0] ev [of 1] by simp_all
        then show ?thesis unfolding fin SDSP_nth in_box_def by simp
      qed
    next
      case False
      show ?thesis
      proof (cases "5 \<le> ?p")
        case True
        with body r \<open>?p \<noteq> 2\<close> show ?thesis by simp
      next
        case p5: False
        from body False p5
        have rec: "search outside cost w i j (x + fst (SDSP ! ?p)) (y + snd (SDSP ! ?p))
                     (reset_costs (arma_min costs')) M' = Some r"
          by simp
        have "arma_min costs' < costsScale \<longrightarrow>
                in_box w i j (y + snd (SDSP ! ?p)) (x + fst (SDSP ! ?p))"
        proof
          assume "arma_min costs' < costsScale"
          then have "costs' ! ?p \<noteq> costsScale" using pmin by simp
          from ev [OF _ this False] p5
          show "in_box w i j (y + snd (SDSP ! ?p)) (x + fst (SDSP ! ?p))" by simp
        qed
        with IH [OF rec, rule_format, OF w refl _ r] show ?thesis by simp
      qed
    qed
  qed
qed


lemma sdsp_search_in_box:
  assumes "sdsp_search outside cost w i j x y (reset_costs c2) M = Some (Inr (yf, xf))"
    and "0 \<le> w" and "c2 < costsScale \<longrightarrow> in_box w i j y x"
  shows "in_box w i j yf xf"
  using sdsp_search_in_box_aux [OF assms(1)] assms(2,3) by blast

lemma sdsp_search_terminates_aux:
  assumes w: "0 \<le> w"
  shows "c2 < costsScale \<Longrightarrow> card (grid_cells w - M) = n \<Longrightarrow>
         \<exists>yx. sdsp_search outside cost w i j x y (reset_costs c2) M = Some (Inr yx)"
proof (induction n arbitrary: x y c2 M rule: less_induct)
  case (less n)
  from sdsp_pass_reset [OF w, of outside cost i j x y c2 M] obtain costs' M' where
    pass: "sdsp_pass outside cost w i j x y [0 ..< 5] (reset_costs c2, M) = Inr (costs', M')"
    and len: "length costs' = 6" and c2: "costs' ! 2 = c2" and c5: "costs' ! 5 = costsScale"
    and sub: "M \<subseteq> M'"
    and ev: "\<And>k. k < 5 \<Longrightarrow> costs' ! k \<noteq> costsScale \<Longrightarrow> k \<noteq> 2 \<Longrightarrow>
        in_box w i j (y + snd (SDSP ! k)) (x + fst (SDSP ! k)) \<and>
        (y - i + snd (SDSP ! k) + w, x - j + fst (SDSP ! k) + w) \<notin> M \<and>
        (y - i + snd (SDSP ! k) + w, x - j + fst (SDSP ! k) + w) \<in> M'"
    by blast
  have ne: "costs' \<noteq> []" using len by auto
  let ?p = "point0 costs'"
  note pmin = point0_min [OF ne]
  have plt: "?p < 6" using point0_less [OF ne] len by simp
  have minc2: "arma_min costs' \<le> c2" using arma_min_le [of 2 costs'] len c2 by simp
  then have minlt: "arma_min costs' < costsScale" using less.prems(1) by simp
  have unf: "sdsp_search outside cost w i j x y (reset_costs c2) M =
               (if ?p = 2 then Some (Inr (y, x))
                else if 5 \<le> ?p then Some (Inl ArpsIndexOutOfBounds)
                else sdsp_search outside cost w i j (x + fst (SDSP ! ?p)) (y + snd (SDSP ! ?p))
                       (reset_costs (arma_min costs')) M')"
    by (subst sdsp_search.simps) (simp only: pass sum.case fst_conv snd_conv)
  show ?case
  proof (cases "?p = 2")
    case True
    then show ?thesis unfolding unf by simp
  next
    case False
    have p5: "?p \<noteq> 5" using pmin c5 minlt by auto
    with plt have p4: "?p < 5" by simp
    have "costs' ! ?p \<noteq> costsScale" using pmin minlt by simp
    from ev [OF p4 this False]
    have box: "in_box w i j (y + snd (SDSP ! ?p)) (x + fst (SDSP ! ?p))"
      and new: "(y - i + snd (SDSP ! ?p) + w, x - j + fst (SDSP ! ?p) + w) \<notin> M"
      and marked: "(y - i + snd (SDSP ! ?p) + w, x - j + fst (SDSP ! ?p) + w) \<in> M'"
      by simp_all
    have ingrid: "(y - i + snd (SDSP ! ?p) + w, x - j + fst (SDSP ! ?p) + w) \<in> grid_cells w"
      using in_box_cell_ok [OF box] by (simp add: grid_cells_def cell_ok_def algebra_simps)
    have fin: "finite (grid_cells w - M)" by (simp add: grid_cells_def)
    have "grid_cells w - M' \<subset> grid_cells w - M"
      using sub new marked ingrid by blast
    from psubset_card_mono [OF fin this] less.prems(2)
    have smaller: "card (grid_cells w - M') < n" by simp
    from less.IH [OF smaller minlt refl]
    show ?thesis unfolding unf using False p4 by simp
  qed
qed

lemma sdsp_search_terminates:
  assumes "0 \<le> w" "c2 < costsScale"
  shows "\<exists>yx. sdsp_search outside cost w i j x y (reset_costs c2) M = Some (Inr yx)"
  using sdsp_search_terminates_aux [OF assms(1) assms(2) refl] .

lemma LDSP_nth_2: "LDSP stepSize predicted ! 2 = (0, 0)"
  by (simp add: LDSP_def)

text \<open>What \<open>arps_patch\<close> does when the reads at the patch origin succeed.\<close>

lemma arps_patch_unfold:
  assumes "u32 (1 + int (me_nxMbs m)) \<noteq> 0" "u32 (1 + int (me_nyMbs m)) \<noteq> 0"
    and "patch_readable m iARPS1 iARPS2 iARPS3 (int (it mod u32 (1 + int (me_nxMbs m))))
           (int (it div u32 (1 + int (me_nyMbs m))))"
    and "rood m it iARPS3 (int (it div u32 (1 + int (me_nyMbs m)))) = (stepSize, maxIdx, predicted)"
    and "ldsp_pass (outside_frame m)
           (block_cost m iARPS1 iARPS2 (int (it mod u32 (1 + int (me_nxMbs m))))
              (int (it div u32 (1 + int (me_nyMbs m)))))
           (int (me_motionWindow m)) (int (it div u32 (1 + int (me_nyMbs m))))
           (int (it mod u32 (1 + int (me_nxMbs m))))
           (LDSP stepSize predicted) stepSize [0 ..< maxIdx]
           (reset_costs (block_cost m iARPS1 iARPS2 (int (it mod u32 (1 + int (me_nxMbs m))))
              (int (it div u32 (1 + int (me_nyMbs m)))) (int (it mod u32 (1 + int (me_nxMbs m))))
              (int (it div u32 (1 + int (me_nyMbs m))))),
            {(int (me_motionWindow m), int (me_motionWindow m))}) = Inr (costs1, M1)"
  shows "arps_patch m iARPS1 iARPS2 iARPS3 it =
         sdsp_search (outside_frame m)
           (block_cost m iARPS1 iARPS2 (int (it mod u32 (1 + int (me_nxMbs m))))
              (int (it div u32 (1 + int (me_nyMbs m)))))
           (int (me_motionWindow m))
           (int (it mod u32 (1 + int (me_nxMbs m)))) (int (it div u32 (1 + int (me_nyMbs m))))
           (int (it div u32 (1 + int (me_nyMbs m))) + fst (LDSP stepSize predicted ! point0 costs1))
           (int (it mod u32 (1 + int (me_nxMbs m))) + snd (LDSP stepSize predicted ! point0 costs1))
           (reset_costs (arma_min costs1)) M1"
  using assms(1,2,3) unfolding arps_patch_def Let_def
  by (simp only: assms(4,5) if_False not_not prod.case sum.case fst_conv snd_conv simp_thms)

lemma ldsp_winner_in_box:
  assumes w: "0 \<le> w"
    and pass: "ldsp_pass outside cost w x y pattern stepSize ks (reset_costs c, M) = Inr (costs1, M1)"
    and p2: "pattern ! 2 = (0, 0)"
    and lt: "arma_min costs1 < costsScale"
  shows "in_box w i j (i + snd (pattern ! point0 costs1)) (j + fst (pattern ! point0 costs1))"
proof -
  from ldsp_pass_props [OF pass]
  have len: "length costs1 = length (reset_costs c)"
    and ch: "\<And>k. costs1 ! k \<noteq> reset_costs c ! k \<Longrightarrow>
          k \<in> set ks \<and> k \<noteq> 2 \<and> cell_ok w (snd (pattern ! k) + w) (fst (pattern ! k) + w)"
    by simp_all
  have l6: "length costs1 = 6" using len by (simp add: reset_costs_def)
  then have ne: "costs1 \<noteq> []" by auto
  let ?p = "point0 costs1"
  have plt: "?p < 6" using point0_less [OF ne] l6 by simp
  show ?thesis
  proof (cases "?p = 2")
    case True
    then show ?thesis using p2 w by (simp add: in_box_def)
  next
    case False
    have "costs1 ! ?p \<noteq> costsScale" using point0_min [OF ne] lt by simp
    moreover have "reset_costs c ! ?p = costsScale" using reset_costs_nth(3) [of ?p c] plt False by simp
    ultimately have "costs1 ! ?p \<noteq> reset_costs c ! ?p" by simp
    from ch [OF this]
    have "cell_ok w (snd (pattern ! ?p) + w) (fst (pattern ! ?p) + w)"
      by simp
    then show ?thesis by (auto simp add: in_box_def cell_ok_def)
  qed
qed

lemma ldsp_centre_kept:
  assumes pass: "ldsp_pass outside cost w x y pattern stepSize ks (reset_costs c, M) = Inr (costs1, M1)"
  shows "arma_min costs1 \<le> c"
proof -
  from ldsp_pass_props [OF pass]
  have len: "length costs1 = length (reset_costs c)"
    and ch: "\<And>k. costs1 ! k \<noteq> reset_costs c ! k \<Longrightarrow>
          k \<in> set ks \<and> k \<noteq> 2 \<and> cell_ok w (snd (pattern ! k) + w) (fst (pattern ! k) + w)"
    by simp_all
  have l6: "length costs1 = 6" using len by (simp add: reset_costs_def)
  have "costs1 ! 2 = reset_costs c ! 2" using ch [of 2] by blast
  then have "costs1 ! 2 = c" by (simp add: reset_costs_def)
  then show ?thesis using arma_min_le [of 2 costs1] l6 by simp
qed

lemma arps_patch_cases:
  obtains (err) e where "arps_patch m iARPS1 iARPS2 iARPS3 it = Some (Inl e)"
  | (search) stepSize maxIdx predicted costs1 M1 where
      "ldsp_pass (outside_frame m)
           (block_cost m iARPS1 iARPS2 (int (it mod u32 (1 + int (me_nxMbs m))))
              (int (it div u32 (1 + int (me_nyMbs m)))))
           (int (me_motionWindow m)) (int (it div u32 (1 + int (me_nyMbs m))))
           (int (it mod u32 (1 + int (me_nxMbs m))))
           (LDSP stepSize predicted) stepSize [0 ..< maxIdx]
           (reset_costs (block_cost m iARPS1 iARPS2 (int (it mod u32 (1 + int (me_nxMbs m))))
              (int (it div u32 (1 + int (me_nyMbs m)))) (int (it mod u32 (1 + int (me_nxMbs m))))
              (int (it div u32 (1 + int (me_nyMbs m))))),
            {(int (me_motionWindow m), int (me_motionWindow m))}) = Inr (costs1, M1)"
      "arps_patch m iARPS1 iARPS2 iARPS3 it =
         sdsp_search (outside_frame m)
           (block_cost m iARPS1 iARPS2 (int (it mod u32 (1 + int (me_nxMbs m))))
              (int (it div u32 (1 + int (me_nyMbs m)))))
           (int (me_motionWindow m))
           (int (it mod u32 (1 + int (me_nxMbs m)))) (int (it div u32 (1 + int (me_nyMbs m))))
           (int (it div u32 (1 + int (me_nyMbs m))) + fst (LDSP stepSize predicted ! point0 costs1))
           (int (it mod u32 (1 + int (me_nxMbs m))) + snd (LDSP stepSize predicted ! point0 costs1))
           (reset_costs (arma_min costs1)) M1"
proof -
  let ?i = "int (it mod u32 (1 + int (me_nxMbs m)))"
  let ?j = "int (it div u32 (1 + int (me_nyMbs m)))"
  show thesis
  proof (cases "u32 (1 + int (me_nxMbs m)) = 0 \<or> u32 (1 + int (me_nyMbs m)) = 0")
    case True
    then have "arps_patch m iARPS1 iARPS2 iARPS3 it = Some (Inl ArpsDivisionByZero)"
      unfolding arps_patch_def by (simp only: if_True)
    then show thesis by (rule err)
  next
    case nz: False
    show thesis
    proof (cases "patch_readable m iARPS1 iARPS2 iARPS3 ?i ?j")
      case False
      with nz have "arps_patch m iARPS1 iARPS2 iARPS3 it = Some (Inl ArpsIndexOutOfBounds)"
        unfolding arps_patch_def Let_def by (simp only: if_False if_True not_False_eq_True)
      then show thesis by (rule err)
    next
      case rd: True
      obtain stepSize maxIdx predicted where r: "rood m it iARPS3 ?j = (stepSize, maxIdx, predicted)"
        by (cases "rood m it iARPS3 ?j") auto
      show thesis
      proof (cases "ldsp_pass (outside_frame m) (block_cost m iARPS1 iARPS2 ?i ?j)
           (int (me_motionWindow m)) ?j ?i (LDSP stepSize predicted) stepSize [0 ..< maxIdx]
           (reset_costs (block_cost m iARPS1 iARPS2 ?i ?j ?i ?j),
            {(int (me_motionWindow m), int (me_motionWindow m))})")
        case (Inl e)
        with nz rd r have "arps_patch m iARPS1 iARPS2 iARPS3 it = Some (Inl e)"
          unfolding arps_patch_def Let_def
          by (simp only: if_False not_not prod.case sum.case simp_thms)
        then show thesis by (rule err)
      next
        case (Inr st)
        obtain costs1 M1 where st: "st = (costs1, M1)" by (cases st)
        from nz have n1: "u32 (1 + int (me_nxMbs m)) \<noteq> 0" and n2: "u32 (1 + int (me_nyMbs m)) \<noteq> 0"
          by simp_all
        from Inr st have l: "ldsp_pass (outside_frame m) (block_cost m iARPS1 iARPS2 ?i ?j)
           (int (me_motionWindow m)) ?j ?i (LDSP stepSize predicted) stepSize [0 ..< maxIdx]
           (reset_costs (block_cost m iARPS1 iARPS2 ?i ?j ?i ?j),
            {(int (me_motionWindow m), int (me_motionWindow m))}) = Inr (costs1, M1)" by simp
        show thesis by (rule search [OF l arps_patch_unfold [OF n1 n2 rd r l]])
      qed
    qed
  qed
qed

lemma arps_patch_in_box:
  assumes "arps_patch m iARPS1 iARPS2 iARPS3 it = Some (Inr (y, x))"
  shows "in_box (int (me_motionWindow m)) (int (it mod u32 (1 + int (me_nxMbs m))))
           (int (it div u32 (1 + int (me_nyMbs m)))) y x"
proof (cases m iARPS1 iARPS2 iARPS3 it rule: arps_patch_cases)
  case (err e)
  with assms show ?thesis by simp
next
  case (search stepSize maxIdx predicted costs1 M1)
  have w: "0 \<le> int (me_motionWindow m)" by simp
  from assms search(2) have run: "sdsp_search (outside_frame m)
           (block_cost m iARPS1 iARPS2 (int (it mod u32 (1 + int (me_nxMbs m))))
              (int (it div u32 (1 + int (me_nyMbs m)))))
           (int (me_motionWindow m))
           (int (it mod u32 (1 + int (me_nxMbs m)))) (int (it div u32 (1 + int (me_nyMbs m))))
           (int (it div u32 (1 + int (me_nyMbs m))) + fst (LDSP stepSize predicted ! point0 costs1))
           (int (it mod u32 (1 + int (me_nxMbs m))) + snd (LDSP stepSize predicted ! point0 costs1))
           (reset_costs (arma_min costs1)) M1 = Some (Inr (y, x))" by simp
  show ?thesis
    by (rule sdsp_search_in_box [OF run w])
       (rule impI, rule ldsp_winner_in_box [OF w search(1) LDSP_nth_2])
qed

lemma arps_patch_terminates:
  assumes "block_cost m iARPS1 iARPS2 (int (it mod u32 (1 + int (me_nxMbs m))))
              (int (it div u32 (1 + int (me_nyMbs m)))) (int (it mod u32 (1 + int (me_nxMbs m))))
              (int (it div u32 (1 + int (me_nyMbs m)))) < costsScale"
  shows "\<exists>r. arps_patch m iARPS1 iARPS2 iARPS3 it = Some r"
proof (cases m iARPS1 iARPS2 iARPS3 it rule: arps_patch_cases)
  case (err e)
  then show ?thesis by simp
next
  case (search stepSize maxIdx predicted costs1 M1)
  have w: "0 \<le> int (me_motionWindow m)" by simp
  from ldsp_centre_kept [OF search(1)] assms have "arma_min costs1 < costsScale" by simp
  from sdsp_search_terminates [OF w this] show ?thesis unfolding search(2) by blast
qed

lemma store_patch_effect:
  assumes "store_patch m iARPS2 iARPS3 it yx = Inr m1"
  shows "me_nxMbs m1 = me_nxMbs m" "me_nyMbs m1 = me_nyMbs m"
    "me_motionWindow m1 = me_motionWindow m"
    "me_A m1 = me_A m" "me_blockSize m1 = me_blockSize m"
    "me_OoBlockSizeSq m1 = me_OoBlockSizeSq m"
    "me_patches m1 it iARPS2 = yx"
    "me_motions m1 it iARPS3 = (fst yx - fst (patch_origin m it), snd yx - snd (patch_origin m it))"
    "\<And>it'. it' \<noteq> it \<Longrightarrow> me_patches m1 it' = me_patches m it'"
    "\<And>it'. it' \<noteq> it \<Longrightarrow> me_motions m1 it' = me_motions m it'"
  using assms by (auto simp add: store_patch_def Let_def patch_origin_def split: if_splits)

lemma patch_origin_cong:
  "me_nxMbs m1 = me_nxMbs m \<Longrightarrow> me_nyMbs m1 = me_nyMbs m \<Longrightarrow> patch_origin m1 = patch_origin m"
  by (simp add: patch_origin_def fun_eq_iff)

lemma arps_loop_effect:
  "arps_loop m iARPS1 iARPS2 iARPS3 its = Some (Inr m') \<Longrightarrow> distinct its \<Longrightarrow>
   me_nxMbs m' = me_nxMbs m \<and> me_nyMbs m' = me_nyMbs m \<and>
   me_motionWindow m' = me_motionWindow m \<and>
   (\<forall>it. it \<notin> set its \<longrightarrow> me_patches m' it = me_patches m it \<and> me_motions m' it = me_motions m it) \<and>
   (\<forall>it. it \<in> set its \<longrightarrow>
      in_box (int (me_motionWindow m)) (fst (patch_origin m it)) (snd (patch_origin m it))
        (fst (me_patches m' it iARPS2)) (snd (me_patches m' it iARPS2)) \<and>
      me_motions m' it iARPS3 =
        (fst (me_patches m' it iARPS2) - fst (patch_origin m it),
         snd (me_patches m' it iARPS2) - snd (patch_origin m it)))"
proof (induction its arbitrary: m)
  case Nil
  then show ?case by simp
next
  case (Cons a its)
  from Cons.prems(1) obtain yx m1 where
    patch: "arps_patch m iARPS1 iARPS2 iARPS3 a = Some (Inr yx)"
    and store: "store_patch m iARPS2 iARPS3 a yx = Inr m1"
    and rest: "arps_loop m1 iARPS1 iARPS2 iARPS3 its = Some (Inr m')"
    by (auto split: option.splits sum.splits)
  from Cons.prems(2) have a: "a \<notin> set its" and d: "distinct its" by simp_all
  note eff = store_patch_effect [OF store]
  note IH = Cons.IH [OF rest d]
  have orig: "patch_origin m1 = patch_origin m" by (rule patch_origin_cong [OF eff(1) eff(2)])
  obtain y x where yx: "yx = (y, x)" by (cases yx)
  from arps_patch_in_box [OF patch [unfolded yx]]
  have box: "in_box (int (me_motionWindow m)) (fst (patch_origin m a)) (snd (patch_origin m a)) y x"
    by (simp add: patch_origin_def)
  have keep: "me_patches m' a = me_patches m1 a" "me_motions m' a = me_motions m1 a"
    using IH a by simp_all
  have head: "in_box (int (me_motionWindow m)) (fst (patch_origin m a)) (snd (patch_origin m a))
        (fst (me_patches m' a iARPS2)) (snd (me_patches m' a iARPS2)) \<and>
      me_motions m' a iARPS3 =
        (fst (me_patches m' a iARPS2) - fst (patch_origin m a),
         snd (me_patches m' a iARPS2) - snd (patch_origin m a))"
    using box by (simp add: keep eff(7) eff(8) yx)
  have tail: "\<And>it. it \<in> set its \<Longrightarrow>
      in_box (int (me_motionWindow m)) (fst (patch_origin m it)) (snd (patch_origin m it))
        (fst (me_patches m' it iARPS2)) (snd (me_patches m' it iARPS2)) \<and>
      me_motions m' it iARPS3 =
        (fst (me_patches m' it iARPS2) - fst (patch_origin m it),
         snd (me_patches m' it iARPS2) - snd (patch_origin m it))"
    using IH by (simp add: orig eff(3))
  have other: "\<And>it. it \<notin> set (a # its) \<Longrightarrow>
      me_patches m' it = me_patches m it \<and> me_motions m' it = me_motions m it"
    using IH eff(9) eff(10) by simp
  have fields: "me_nxMbs m' = me_nxMbs m \<and> me_nyMbs m' = me_nyMbs m \<and>
      me_motionWindow m' = me_motionWindow m"
    using IH eff(1) eff(2) eff(3) by simp
  show ?case using fields other head tail by auto
qed

lemma block_cost_cong:
  assumes "me_A m1 = me_A m" "me_blockSize m1 = me_blockSize m"
    "me_OoBlockSizeSq m1 = me_OoBlockSizeSq m"
  shows "block_cost m1 = block_cost m"
  by (simp add: fun_eq_iff block_cost_def block_difference_norm_def assms)

lemma arps_loop_terminates:
  "(\<forall>it \<in> set its. block_cost m iARPS1 iARPS2 (fst (patch_origin m it)) (snd (patch_origin m it))
       (fst (patch_origin m it)) (snd (patch_origin m it)) < costsScale) \<Longrightarrow>
   \<exists>r. arps_loop m iARPS1 iARPS2 iARPS3 its = Some r"
proof (induction its arbitrary: m)
  case Nil
  then show ?case by simp
next
  case (Cons a its)
  from Cons.prems have "block_cost m iARPS1 iARPS2 (fst (patch_origin m a)) (snd (patch_origin m a))
       (fst (patch_origin m a)) (snd (patch_origin m a)) < costsScale" by simp
  then have "\<exists>r. arps_patch m iARPS1 iARPS2 iARPS3 a = Some r"
    unfolding patch_origin_def fst_conv snd_conv by (rule arps_patch_terminates)
  then obtain r where r: "arps_patch m iARPS1 iARPS2 iARPS3 a = Some r" ..
  show ?case
  proof (cases r)
    case (Inl e)
    then show ?thesis using r by simp
  next
    case (Inr yx)
    show ?thesis
    proof (cases "store_patch m iARPS2 iARPS3 a yx")
      case (Inl e)
      then show ?thesis using r Inr by simp
    next
      case store: (Inr m1)
      note eff = store_patch_effect [OF store]
      have "\<forall>it \<in> set its. block_cost m1 iARPS1 iARPS2 (fst (patch_origin m1 it)) (snd (patch_origin m1 it))
       (fst (patch_origin m1 it)) (snd (patch_origin m1 it)) < costsScale"
        using Cons.prems
        by (simp add: block_cost_cong [OF eff(4) eff(5) eff(6)] patch_origin_cong [OF eff(1) eff(2)])
      from Cons.IH [OF this] show ?thesis using r Inr store by simp
    qed
  qed
qed

subsection \<open>The block matcher on the concrete input\<close>

lemma block_cost_unit:
  "me_blockSize m = 1 \<Longrightarrow> block_cost m iARPS1 iARPS2 i j ver hor =
     (me_A m (nat i) (nat j) iARPS1 - me_A m (nat ver) (nat hor) iARPS2)\<^sup>2 * me_OoBlockSizeSq m"
  by (simp add: block_cost_def block_difference_norm_def Let_def power2_eq_square)

lemma example_fields:
  "me_A example_estimator = moving_pixel" "me_blockSize example_estimator = 1"
  "me_motionWindow example_estimator = 1" "me_timeWindow example_estimator = 1"
  "me_Nx example_estimator = 2" "me_Ny example_estimator = 2" "me_T example_estimator = 2"
  "me_nxMbs example_estimator = 1" "me_nyMbs example_estimator = 1"
  "me_vecSize example_estimator = 4" "me_OoBlockSizeSq example_estimator = 1"
  "me_motions example_estimator = (\<lambda>it f. (0, 0))"
  "me_patches example_estimator = (\<lambda>it f. (0, 0))"
  by (simp_all add: example_estimator_def MotionEstimator_def Let_def u32_def)

lemma upt_5: "[0 ..< 5] = [0, 1, 2, 3, 4]" "[0 ..< 6] = [0, 1, 2, 3, 4, 5]"
  by (simp_all add: upt_rec)

lemma reset_costs_list:
  "reset_costs c = [costsScale, costsScale, c, costsScale, costsScale, costsScale]"
  by (simp add: reset_costs_def numeral_eq_Suc)

lemmas example_simps =
  example_fields u32_def Let_def patch_readable_def rood_def upt_5 reset_costs_list
  LDSP_def SDSP_def outside_frame_def block_cost_unit moving_pixel_def costsScale_def
  point0_def arma_min_def cell_ok_def

lemma example_patch_0:
  "arps_patch example_estimator 0 1 0 0 = Some (Inr (0, 1))"
  unfolding arps_patch_def
  apply (simp add: example_simps)
  apply (subst sdsp_search.simps)
  apply (simp add: example_simps)
  apply (subst sdsp_search.simps)
  apply (simp add: example_simps)
  done

lemma example_patch_1:
  "arps_patch example_estimator 0 1 0 1 = Some (Inr (0, 0))"
  unfolding arps_patch_def
  apply (simp add: example_simps)
  apply (subst sdsp_search.simps)
  apply (simp add: example_simps)
  apply (subst sdsp_search.simps)
  apply (simp add: example_simps)
  done

lemma example_patch_2:
  "arps_patch example_estimator 0 1 0 2 = Some (Inr (0, 0))"
  unfolding arps_patch_def
  apply (simp add: example_simps)
  apply (subst sdsp_search.simps)
  apply (simp add: example_simps)
  apply (subst sdsp_search.simps)
  apply (simp add: example_simps)
  done

lemma example_patch_3:
  "arps_patch example_estimator 0 1 0 3 = Some (Inr (0, 0))"
  unfolding arps_patch_def
  apply (simp add: example_simps)
  apply (subst sdsp_search.simps)
  apply (simp add: example_simps)
  apply (subst sdsp_search.simps)
  apply (simp add: example_simps)
  apply (subst sdsp_search.simps)
  apply (simp add: example_simps)
  done

lemma store_patch_frame:
  assumes "store_patch m iARPS2 iARPS3 it yx = Inr m1"
  shows "me_Nx m1 = me_Nx m" "me_Ny m1 = me_Ny m" "me_T m1 = me_T m"
    "me_timeWindow m1 = me_timeWindow m"
  using assms by (auto simp add: store_patch_def Let_def split: if_splits)

lemma arps_patch_cong:
  assumes "me_A m1 = me_A m" "me_blockSize m1 = me_blockSize m"
    "me_OoBlockSizeSq m1 = me_OoBlockSizeSq m" "me_nxMbs m1 = me_nxMbs m"
    "me_nyMbs m1 = me_nyMbs m" "me_motionWindow m1 = me_motionWindow m"
    "me_Nx m1 = me_Nx m" "me_Ny m1 = me_Ny m" "me_T m1 = me_T m"
    "me_timeWindow m1 = me_timeWindow m"
    "me_motions m1 it = me_motions m it"
  shows "arps_patch m1 iARPS1 iARPS2 iARPS3 it = arps_patch m iARPS1 iARPS2 iARPS3 it"
proof -
  have o: "outside_frame m1 = outside_frame m"
    by (simp add: fun_eq_iff outside_frame_def assms)
  have r: "\<And>j. rood m1 it iARPS3 j = rood m it iARPS3 j"
    unfolding rood_def assms(11) by (rule refl)
  have p: "\<And>i j. patch_readable m1 iARPS1 iARPS2 iARPS3 i j = patch_readable m iARPS1 iARPS2 iARPS3 i j"
    by (simp add: patch_readable_def assms)
  show ?thesis
    unfolding arps_patch_def o r p block_cost_cong [OF assms(1,2,3)] assms(4,5,6) ..
qed

lemma arps_loop_succeeds:
  "(\<forall>it \<in> set its. \<exists>yx. arps_patch m iARPS1 iARPS2 iARPS3 it = Some (Inr yx)) \<Longrightarrow>
   distinct its \<Longrightarrow> iARPS3 < 2 * me_timeWindow m \<Longrightarrow> iARPS2 < 2 * me_timeWindow m + 1 \<Longrightarrow>
   \<exists>m'. arps_loop m iARPS1 iARPS2 iARPS3 its = Some (Inr m')"
proof (induction its arbitrary: m)
  case Nil
  then show ?case by simp
next
  case (Cons a its)
  from Cons.prems(1) obtain yx where yx: "arps_patch m iARPS1 iARPS2 iARPS3 a = Some (Inr yx)"
    by auto
  from Cons.prems(3,4) obtain m1 where store: "store_patch m iARPS2 iARPS3 a yx = Inr m1"
    by (simp add: store_patch_def Let_def)
  note eff = store_patch_effect [OF store] and fr = store_patch_frame [OF store]
  have same: "\<And>it. it \<in> set its \<Longrightarrow>
      arps_patch m1 iARPS1 iARPS2 iARPS3 it = arps_patch m iARPS1 iARPS2 iARPS3 it"
  proof -
    fix it assume "it \<in> set its"
    with Cons.prems(2) have "it \<noteq> a" by auto
    from eff(10) [OF this] show "arps_patch m1 iARPS1 iARPS2 iARPS3 it = arps_patch m iARPS1 iARPS2 iARPS3 it"
      by (rule arps_patch_cong [OF eff(4) eff(5) eff(6) eff(1) eff(2) eff(3) fr(1) fr(2) fr(3) fr(4)])
  qed
  have "\<exists>m'. arps_loop m1 iARPS1 iARPS2 iARPS3 its = Some (Inr m')"
    using Cons.prems by (intro Cons.IH) (simp_all add: same fr(4))
  then show ?case using yx store by simp
qed

lemma upt_4: "[0 ..< 4] = [0, 1, 2, 3]"
  by (simp add: upt_rec)

lemma example_run:
  "\<exists>m'. ARPSMotionEstimation example_estimator 0 0 1 0 = Some (Inr m')"
  unfolding ARPSMotionEstimation_def example_fields upt_4
  by (rule arps_loop_succeeds)
     (simp_all add: example_fields example_patch_0 example_patch_1 example_patch_2
        example_patch_3 del: One_nat_def)

lemma arps_loop_stores:
  "arps_loop m iARPS1 iARPS2 iARPS3 its = Some (Inr m') \<Longrightarrow> distinct its \<Longrightarrow> it \<in> set its \<Longrightarrow>
   arps_patch m iARPS1 iARPS2 iARPS3 it = Some (Inr (me_patches m' it iARPS2))"
proof (induction its arbitrary: m)
  case Nil
  then show ?case by simp
next
  case (Cons a its)
  from Cons.prems(1) obtain yx m1 where
    patch: "arps_patch m iARPS1 iARPS2 iARPS3 a = Some (Inr yx)"
    and store: "store_patch m iARPS2 iARPS3 a yx = Inr m1"
    and rest: "arps_loop m1 iARPS1 iARPS2 iARPS3 its = Some (Inr m')"
    by (auto split: option.splits sum.splits)
  from Cons.prems(2) have a: "a \<notin> set its" and d: "distinct its" by simp_all
  note eff = store_patch_effect [OF store] and fr = store_patch_frame [OF store]
  show ?case
  proof (cases "it = a")
    case True
    have "me_patches m' a = me_patches m1 a" using arps_loop_effect [OF rest d] a by simp
    then show ?thesis using patch eff(7) True by simp
  next
    case False
    with Cons.prems(3) have it: "it \<in> set its" by simp
    have "arps_patch m1 iARPS1 iARPS2 iARPS3 it = arps_patch m iARPS1 iARPS2 iARPS3 it"
      using eff(10) [OF False]
      by (rule arps_patch_cong [OF eff(4) eff(5) eff(6) eff(1) eff(2) eff(3) fr(1) fr(2) fr(3) fr(4)])
    with Cons.IH [OF rest d it] show ?thesis by simp
  qed
qed

subsection \<open>The motion search is bounded and ends\<close>

text \<open>
  C3. Whenever \<^verbatim>\<open>ARPSMotionEstimation\<close> returns, the displacement it has recorded for
  every patch \<open>it\<close> in frame \<open>iARPS3\<close> of \<^verbatim>\<open>motions\<close> is at most \<^verbatim>\<open>motionWindow\<close> in
  absolute value in each component, and the location recorded in frame \<open>iARPS2\<close> of
  \<^verbatim>\<open>patches\<close> is the grid origin of the patch moved by that displacement, a point of the
  box of half-width \<^verbatim>\<open>motionWindow\<close> around the origin.
\<close>

theorem arps_displacement_bounded:
  assumes "ARPSMotionEstimation m curFrame iARPS1 iARPS2 iARPS3 = Some (Inr m')"
    and "it < me_vecSize m"
  shows "\<bar>fst (me_motions m' it iARPS3)\<bar> \<le> int (me_motionWindow m) \<and>
         \<bar>snd (me_motions m' it iARPS3)\<bar> \<le> int (me_motionWindow m) \<and>
         me_patches m' it iARPS2 =
           (fst (patch_origin m it) + fst (me_motions m' it iARPS3),
            snd (patch_origin m it) + snd (me_motions m' it iARPS3)) \<and>
         in_box (int (me_motionWindow m)) (fst (patch_origin m it)) (snd (patch_origin m it))
           (fst (me_patches m' it iARPS2)) (snd (me_patches m' it iARPS2))"
proof -
  from assms(1) have run: "arps_loop m iARPS1 iARPS2 iARPS3 [0 ..< me_vecSize m] = Some (Inr m')"
    by (simp add: ARPSMotionEstimation_def)
  from assms(2) have "it \<in> set [0 ..< me_vecSize m]" by simp
  with arps_loop_effect [OF run distinct_upt]
  have box: "in_box (int (me_motionWindow m)) (fst (patch_origin m it)) (snd (patch_origin m it))
        (fst (me_patches m' it iARPS2)) (snd (me_patches m' it iARPS2))"
    and mot: "me_motions m' it iARPS3 =
        (fst (me_patches m' it iARPS2) - fst (patch_origin m it),
         snd (me_patches m' it iARPS2) - snd (patch_origin m it))"
    by blast+
  show ?thesis using box by (simp add: mot in_box_def prod_eq_iff)
qed

theorem arps_displacement_bounded_witness:
  "\<exists>m'. ARPSMotionEstimation example_estimator 0 0 1 0 = Some (Inr m') \<and>
        (0 :: nat) < me_vecSize example_estimator \<and>
        me_patches m' 0 1 = (0, 1) \<and> me_motions m' 0 0 = (0, 1) \<and>
        \<bar>fst (me_motions m' 0 0)\<bar> \<le> int (me_motionWindow example_estimator) \<and>
        \<bar>snd (me_motions m' 0 0)\<bar> \<le> int (me_motionWindow example_estimator)"
proof -
  from example_run obtain m' where
    run: "ARPSMotionEstimation example_estimator 0 0 1 0 = Some (Inr m')" ..
  have size: "(0 :: nat) < me_vecSize example_estimator" by (simp add: example_fields)
  from run have "arps_loop example_estimator 0 1 0 [0 ..< 4] = Some (Inr m')"
    by (simp add: ARPSMotionEstimation_def example_fields)
  from arps_loop_stores [OF this distinct_upt, of 0]
  have loc: "me_patches m' 0 1 = (0, 1)" by (simp add: example_patch_0 del: One_nat_def)
  from arps_displacement_bounded [OF run size]
  have "\<bar>fst (me_motions m' 0 0)\<bar> \<le> int (me_motionWindow example_estimator) \<and>
        \<bar>snd (me_motions m' 0 0)\<bar> \<le> int (me_motionWindow example_estimator) \<and>
        me_patches m' 0 1 =
           (fst (patch_origin example_estimator 0) + fst (me_motions m' 0 0),
            snd (patch_origin example_estimator 0) + snd (me_motions m' 0 0))"
    by simp
  then show ?thesis using run size loc
    by (auto simp add: patch_origin_def example_fields u32_def prod_eq_iff)
qed

text \<open>
  C10. The only loop of the search of one patch that can run forever is the SDSP
  \<^verbatim>\<open>do ... while\<close> loop, so the search of patch \<open>it\<close> returns (a location or an error)
  exactly when that loop ends. It does whenever the cost of the co-located block, the
  first cost the search evaluates, is below the sentinel \<^verbatim>\<open>costsScale = 1E8\<close>: the
  minimum that a pass carries into the centre of the next one never exceeds it, so a pass
  that moves the centre moves it to a candidate evaluated in that pass, whose cell of
  \<^verbatim>\<open>checkMat\<close> was free before and is marked after, and \<^verbatim>\<open>checkMat\<close> has
  \<open>(2 * motionWindow + 1)\<^sup>2\<close> cells.
\<close>

theorem sdsp_loop_terminates:
  assumes "block_cost m iARPS1 iARPS2 (fst (patch_origin m it)) (snd (patch_origin m it))
             (fst (patch_origin m it)) (snd (patch_origin m it)) < costsScale"
  shows "\<exists>r. arps_patch m iARPS1 iARPS2 iARPS3 it = Some r"
  using assms unfolding patch_origin_def fst_conv snd_conv by (rule arps_patch_terminates)

theorem sdsp_loop_terminates_witness:
  "block_cost example_estimator 0 1 (fst (patch_origin example_estimator 3))
     (snd (patch_origin example_estimator 3)) (fst (patch_origin example_estimator 3))
     (snd (patch_origin example_estimator 3)) < costsScale \<and>
   (\<exists>r. arps_patch example_estimator 0 1 0 3 = Some r)"
  using sdsp_loop_terminates [of example_estimator 0 1 3 0]
  by (simp add: patch_origin_def example_fields u32_def block_cost_unit moving_pixel_def
        costsScale_def)


end
